theory Spec2Isabelle
  imports Complex_Main
begin

section \<open>Data model of the Room simulation\<close>

text \<open>
  The Room class of the server (the file holding \<^verbatim>\<open>export class Room\<close>) is embedded
  as pure functions on an explicit room record. JavaScript numbers are idealised as
  \<^typ>\<open>real\<close> (no rounding, no NaN); \<^verbatim>\<open>Date.now()\<close> is an explicit argument
  \<open>now\<close> of every function that reads the clock. A \<^verbatim>\<open>Map\<close> is a list in
  insertion order whose elements carry their key (the id); lookups take the first
  element with the key.
\<close>

datatype Role = Dog | Panda

record WorldPos =
  px :: real
  py :: real
  pz :: real

record Vec2 =
  vx :: real
  vy :: real

datatype Direction8 = DirN | DirNE | DirE | DirSE | DirS | DirSW | DirW | DirNW

datatype EState = Idle | Walk | Run

record EntityState =
  e_id :: string
  e_type :: Role
  e_position :: WorldPos
  e_velocity :: Vec2
  e_facing :: Direction8
  e_state :: EState

datatype TileType = Ground | Grass | Stone | Water | Wall | Bridge | Void

record TileData =
  t_type :: TileType
  t_elevation :: real
  t_walkable :: bool

text \<open>Primitive values of a state bag, as far as puzzle conditions compare them.\<close>

datatype JsVal = JBool bool | JNum real | JStr string

datatype LeverPos = LOff | LOn | LHeld

datatype Threshold = Light | Heavy

text \<open>
  The state bag of an interactable, one constructor per type tag the Room reads, with
  the fields the Room casts the bag to. Optional fields (\<^verbatim>\<open>timer?\<close>,
  \<^verbatim>\<open>timerDuration?\<close>, \<^verbatim>\<open>poweredById?\<close>, \<^verbatim>\<open>waypoints?\<close>) are options,
  \<open>None\<close> standing for \<^verbatim>\<open>undefined\<close>.
\<close>

datatype IState =
    Door (d_open: bool) (d_locked: bool) (d_requiresHeavy: bool)
  | Lever (l_position: LeverPos) (l_requiresStrength: bool)
  | PressurePlate (pp_activated: bool) (pp_weightThreshold: Threshold) (pp_currentWeight: real)
  | Crate (c_beingPushed: bool) (c_gridX: int) (c_gridY: int)
  | Winch (w_extended: real) (w_operating: bool) (w_requiresPower: bool)
      (w_poweredById: "string option")
  | CameraNode
  | Platform (pl_currentPosition: real) (pl_moving: bool) (pl_direction: real)
      (pl_speed: real) (pl_waypoints: "WorldPos list option")
  | Button (b_pressed: bool) (b_momentary: bool) (b_timer: "real option")
      (b_timerDuration: "real option")
  | Hazard (h_active: bool)
  | Conveyor (cv_active: bool) (cv_direction: Vec2) (cv_speed: real) (cv_width: real)
      (cv_length: real)
  | Other

record InteractableState =
  i_id :: string
  i_position :: WorldPos
  i_state :: IState
  i_linkedIds :: "string list"
  i_extra :: "(string \<times> JsVal) list"

datatype PuzzleCondition =
    InteractableStateCond "string option" "(string \<times> JsVal) list option"
  | BothPlayersInZone "WorldPos option" "WorldPos option"
  | AllObjectives
  | UnknownCondition

record Objective =
  o_id :: string
  o_condition :: PuzzleCondition
  o_optional :: bool

record PuzzleConfig =
  p_id :: string
  p_objectives :: "Objective list"
  p_completionReward :: "string option"

record LevelData =
  l_width :: real
  l_height :: real
  l_tiles :: "TileData list list"
  l_spawn_dog :: "WorldPos option"
  l_spawn_panda :: "WorldPos option"
  l_puzzles :: "PuzzleConfig list"

record PlayerPuzzleState =
  ps_completed :: bool
  ps_objectives :: "string \<rightharpoonup> bool"

datatype RespawnReason = ByHazard | ByGuard

record RespawnEvent =
  r_entityId :: string
  r_role :: Role
  r_position :: WorldPos
  r_reason :: RespawnReason

datatype GuardAlertState = GIdle | Suspicious | Alert | Returning

record GuardState =
  g_id :: string
  g_position :: WorldPos
  g_facing :: real
  g_patrolRoute :: "WorldPos list"
  g_patrolIndex :: int
  g_patrolDirection :: int
  g_alertState :: GuardAlertState
  g_alertTimer :: real
  g_lastSeenPlayerPos :: "WorldPos option"
  g_visionAngle :: real
  g_visionRange :: real
  g_moveSpeed :: real

datatype DistractionType = Whistle | Rock

record DistractionEvent =
  ds_position :: WorldPos
  ds_type :: DistractionType
  ds_createdAt :: real
  ds_duration :: real

datatype PingType = Look | Go | Wait | Interact | Danger

record PingMarker =
  pg_id :: string
  pg_position :: WorldPos
  pg_type :: PingType
  pg_createdBy :: Role
  pg_createdAt :: real
  pg_expiresAt :: real

record Checkpoint =
  cp_dog :: WorldPos
  cp_panda :: WorldPos

record Room =
  levelData :: "LevelData option"
  players :: "string \<rightharpoonup> Role"
  entities :: "EntityState list"
  interactables :: "InteractableState list"
  pings :: "PingMarker list"
  puzzleStates :: "string \<rightharpoonup> PlayerPuzzleState"
  tick_n :: nat
  paused :: bool
  lastPingTime :: "string \<rightharpoonup> real"
  pendingRespawns :: "RespawnEvent list"
  guards :: "GuardState list"
  distractions :: "DistractionEvent list"
  checkpointPosition :: "Checkpoint option"

text \<open>
  The constants imported from \<^verbatim>\<open>shared/constants\<close>, a file that is not part of the
  sources at hand: they are parameters of the model.
\<close>

record Constants =
  DOG_COLLISION_RADIUS :: real
  PANDA_COLLISION_RADIUS :: real
  DOG_WALK_SPEED :: real
  DOG_RUN_SPEED :: real
  PANDA_WALK_SPEED :: real
  PANDA_RUN_SPEED :: real
  HAZARD_COLLISION_RADIUS :: real
  PING_COOLDOWN :: real
  PING_MAX_PER_PLAYER :: nat
  PING_LIFETIME :: real

section \<open>Collision and movement validation\<close>

text \<open>
  One corner of the collision box in \<^verbatim>\<open>isPositionWalkable\<close>: the tile is looked up
  only when the row and the column exist, and blocks when it is not walkable.
\<close>

definition cornerBlocked :: "LevelData \<Rightarrow> real \<Rightarrow> real \<Rightarrow> bool" where
  "cornerBlocked lvl cx cy =
     (let checkX = \<lfloor>cx\<rfloor>; checkY = \<lfloor>cy\<rfloor> in
      0 \<le> checkY \<and> checkY < int (length (l_tiles lvl)) \<and>
      (let row = l_tiles lvl ! nat checkY in
       0 \<le> checkX \<and> checkX < int (length row) \<and> \<not> t_walkable (row ! nat checkX)))"

definition closedDoorAt :: "real \<Rightarrow> real \<Rightarrow> InteractableState \<Rightarrow> bool" where
  "closedDoorAt xx yy i =
     (case i_state i of
        Door opn lck hv \<Rightarrow>
          \<not> opn \<and> \<bar>xx - px (i_position i)\<bar> < 0.6 \<and> \<bar>yy - py (i_position i)\<bar> < 0.6
      | _ \<Rightarrow> False)"

definition isPositionWalkable :: "Room \<Rightarrow> real \<Rightarrow> real \<Rightarrow> real \<Rightarrow> bool" where
  "isPositionWalkable s xx yy radius =
     (case levelData s of
        None \<Rightarrow> True
      | Some lvl \<Rightarrow>
          if xx < radius \<or> xx \<ge> l_width lvl - radius \<or>
             yy < radius \<or> yy \<ge> l_height lvl - radius then False
          else if list_ex (\<lambda>(dx, dy). cornerBlocked lvl (xx + dx) (yy + dy))
                    [(- radius, - radius), (radius, - radius),
                     (- radius, radius), (radius, radius)] then False
          else if list_ex (closedDoorAt xx yy) (interactables s) then False
          else True)"

definition collisionRadius :: "Constants \<Rightarrow> Role \<Rightarrow> real" where
  "collisionRadius K role =
     (if role = Dog then DOG_COLLISION_RADIUS K else PANDA_COLLISION_RADIUS K)"

definition validatePosition ::
  "Constants \<Rightarrow> Room \<Rightarrow> WorldPos \<Rightarrow> WorldPos \<Rightarrow> Role \<Rightarrow> WorldPos" where
  "validatePosition K s currentPos targetPos role =
     (case levelData s of
        None \<Rightarrow> targetPos
      | Some lvl \<Rightarrow>
          (let radius = collisionRadius K role in
           if isPositionWalkable s (px targetPos) (py targetPos) radius then targetPos
           else if isPositionWalkable s (px targetPos) (py currentPos) radius
             then \<lparr>px = px targetPos, py = py currentPos, pz = pz targetPos\<rparr>
           else if isPositionWalkable s (px currentPos) (py targetPos) radius
             then \<lparr>px = px currentPos, py = py targetPos, pz = pz targetPos\<rparr>
           else currentPos))"

section \<open>The interactable store\<close>

text \<open>The \<^verbatim>\<open>type\<close> tag of an interactable, read off its state bag.\<close>

datatype InteractableType =
    TDoor | TLever | TPressurePlate | TCrate | TWinch | TCameraNode | TPlatform | TButton
  | THazard | TConveyor | TOther

definition i_type :: "InteractableState \<Rightarrow> InteractableType" where
  "i_type i =
     (case i_state i of
        Door opn lck hv \<Rightarrow> TDoor
      | Lever pos rs \<Rightarrow> TLever
      | PressurePlate a th w \<Rightarrow> TPressurePlate
      | Crate bp gx gy \<Rightarrow> TCrate
      | Winch ext opr rp pid \<Rightarrow> TWinch
      | CameraNode \<Rightarrow> TCameraNode
      | Platform cp mv dir sp wps \<Rightarrow> TPlatform
      | Button pr mo tm td \<Rightarrow> TButton
      | Hazard a \<Rightarrow> THazard
      | Conveyor a dir sp w l \<Rightarrow> TConveyor
      | Other \<Rightarrow> TOther)"

definition getInteractable :: "Room \<Rightarrow> string \<Rightarrow> InteractableState option" where
  "getInteractable s k = find (\<lambda>i. i_id i = k) (interactables s)"

text \<open>Mutation in place of the object stored under a key.\<close>

definition modifyInteractable ::
  "string \<Rightarrow> (InteractableState \<Rightarrow> InteractableState) \<Rightarrow> Room \<Rightarrow> Room" where
  "modifyInteractable k f s =
     s\<lparr>interactables := map (\<lambda>i. if i_id i = k then f i else i) (interactables s)\<rparr>"

definition interactableIds :: "Room \<Rightarrow> string list" where
  "interactableIds s = map i_id (interactables s)"

definition isCrate :: "InteractableState \<Rightarrow> bool" where
  "isCrate i = (case i_state i of Crate b gx gy \<Rightarrow> True | _ \<Rightarrow> False)"

definition isPressurePlate :: "InteractableState \<Rightarrow> bool" where
  "isPressurePlate i = (case i_state i of PressurePlate a t w \<Rightarrow> True | _ \<Rightarrow> False)"

definition isDoor :: "InteractableState \<Rightarrow> bool" where
  "isDoor i = (case i_state i of Door opn lck hv \<Rightarrow> True | _ \<Rightarrow> False)"

definition planarDist :: "WorldPos \<Rightarrow> WorldPos \<Rightarrow> real" where
  "planarDist a b =
     (let dx = px a - px b; dy = py a - py b in sqrt (dx * dx + dy * dy))"

text \<open>\<^verbatim>\<open>interactables.set\<close>: an existing key keeps its place, a new key goes last.\<close>

definition setInteractable :: "InteractableState \<Rightarrow> Room \<Rightarrow> Room" where
  "setInteractable obj s =
     s\<lparr>interactables :=
         (if list_ex (\<lambda>i. i_id i = i_id obj) (interactables s)
          then map (\<lambda>i. if i_id i = i_id obj then obj else i) (interactables s)
          else interactables s @ [obj])\<rparr>"

text \<open>\<^verbatim>\<open>createPlaceholderLevel\<close>, the fallback of \<^verbatim>\<open>initializeLevel\<close> when the level id is
  unknown: a closed door and a lever are stored and \<^verbatim>\<open>levelData\<close> stays null.\<close>

definition createPlaceholderLevel :: "Room \<Rightarrow> Room" where
  "createPlaceholderLevel s =
     setInteractable
       \<lparr>i_id = ''lever_1'', i_position = \<lparr>px = 8, py = 8, pz = 0\<rparr>,
        i_state = Lever LOff False, i_linkedIds = [''door_1''], i_extra = []\<rparr>
       (setInteractable
          \<lparr>i_id = ''door_1'', i_position = \<lparr>px = 10, py = 5, pz = 0\<rparr>,
           i_state = Door False False False, i_linkedIds = [], i_extra = []\<rparr> s)"

section \<open>Link propagation\<close>

text \<open>\<^verbatim>\<open>triggerLinkedObjects\<close>: every linked door flips \<open>open\<close>, every linked platform
  flips \<open>moving\<close>; other linked objects and unknown ids are skipped.\<close>

definition toggleLinked :: "InteractableState \<Rightarrow> InteractableState" where
  "toggleLinked i =
     (case i_state i of
        Door opn lck hv \<Rightarrow> i\<lparr>i_state := Door (\<not> opn) lck hv\<rparr>
      | Platform cp mv dir sp wps \<Rightarrow> i\<lparr>i_state := Platform cp (\<not> mv) dir sp wps\<rparr>
      | _ \<Rightarrow> i)"

definition triggerLinkedStep :: "Room \<Rightarrow> string \<Rightarrow> Room" where
  "triggerLinkedStep s linkedId =
     (case getInteractable s linkedId of
        None \<Rightarrow> s
      | Some linked \<Rightarrow> modifyInteractable linkedId toggleLinked s)"

definition triggerLinkedObjects :: "Room \<Rightarrow> InteractableState \<Rightarrow> Room" where
  "triggerLinkedObjects s source = foldl triggerLinkedStep s (i_linkedIds source)"

section \<open>Pressure plates and the multi-plate door rule\<close>

definition setDoor :: "bool \<Rightarrow> bool \<Rightarrow> InteractableState \<Rightarrow> InteractableState" where
  "setDoor lck opn i =
     (case i_state i of
        Door o1 l1 hv \<Rightarrow> i\<lparr>i_state := Door opn lck hv\<rparr>
      | _ \<Rightarrow> i)"

definition requiredPlates :: "Room \<Rightarrow> string \<Rightarrow> InteractableState list" where
  "requiredPlates s doorId =
     filter (\<lambda>i. isPressurePlate i \<and> doorId \<in> set (i_linkedIds i)) (interactables s)"

definition checkDoorUnlock :: "Room \<Rightarrow> InteractableState \<Rightarrow> Room" where
  "checkDoorUnlock s door =
     (let plates = requiredPlates s (i_id door);
          allActivated = list_all (\<lambda>p. pp_activated (i_state p)) plates in
      if allActivated \<and> length plates > 0
        then modifyInteractable (i_id door) (setDoor False True) s
      else if length plates > 0
        then modifyInteractable (i_id door) (setDoor True False) s
      else s)"

definition setHazardActive :: "bool \<Rightarrow> InteractableState \<Rightarrow> InteractableState" where
  "setHazardActive a i =
     (case i_state i of Hazard old \<Rightarrow> i\<lparr>i_state := Hazard a\<rparr> | _ \<Rightarrow> i)"

definition plateChangeStep :: "bool \<Rightarrow> Room \<Rightarrow> string \<Rightarrow> Room" where
  "plateChangeStep activated s linkedId =
     (case getInteractable s linkedId of
        None \<Rightarrow> s
      | Some linked \<Rightarrow>
          (case i_state linked of
             Hazard a \<Rightarrow> modifyInteractable linkedId (setHazardActive (\<not> activated)) s
           | Door opn lck hv \<Rightarrow> checkDoorUnlock s linked
           | _ \<Rightarrow> s))"

definition handlePressurePlateChange :: "Room \<Rightarrow> InteractableState \<Rightarrow> bool \<Rightarrow> Room" where
  "handlePressurePlateChange s plate activated =
     foldl (plateChangeStep activated) s (i_linkedIds plate)"

text \<open>The weight on a plate: the two accumulation loops of \<^verbatim>\<open>updatePressurePlates\<close>.\<close>

definition plateRadius :: real where
  "plateRadius = 0.8"

definition addEntityWeight :: "WorldPos \<Rightarrow> real \<Rightarrow> EntityState \<Rightarrow> real" where
  "addEntityWeight platePos totalWeight e =
     (if planarDist (e_position e) platePos < plateRadius
      then totalWeight + (if e_type e = Panda then 2 else 1)
      else totalWeight)"

definition addCrateWeight :: "WorldPos \<Rightarrow> real \<Rightarrow> InteractableState \<Rightarrow> real" where
  "addCrateWeight platePos totalWeight other =
     (if \<not> isCrate other then totalWeight
      else if planarDist (i_position other) platePos < plateRadius then totalWeight + 2
      else totalWeight)"

definition plateTotalWeight :: "Room \<Rightarrow> WorldPos \<Rightarrow> real" where
  "plateTotalWeight s platePos =
     foldl (addCrateWeight platePos)
       (foldl (addEntityWeight platePos) 0 (entities s)) (interactables s)"

definition requiredWeight :: "Threshold \<Rightarrow> real" where
  "requiredWeight th = (if th = Heavy then 2 else 1)"

definition setPlate :: "bool \<Rightarrow> real \<Rightarrow> InteractableState \<Rightarrow> InteractableState" where
  "setPlate a w i =
     (case i_state i of
        PressurePlate old th cw \<Rightarrow> i\<lparr>i_state := PressurePlate a th w\<rparr>
      | _ \<Rightarrow> i)"

definition plateStep :: "Room \<Rightarrow> string \<Rightarrow> Room" where
  "plateStep s k =
     (case getInteractable s k of
        None \<Rightarrow> s
      | Some interactable \<Rightarrow>
          (case i_state interactable of
             PressurePlate wasActivated th cw \<Rightarrow>
               (let totalWeight = plateTotalWeight s (i_position interactable);
                    activated = (totalWeight \<ge> requiredWeight th);
                    s1 = modifyInteractable k (setPlate activated totalWeight) s in
                if activated \<noteq> wasActivated
                then handlePressurePlateChange s1 interactable activated
                else s1)
           | _ \<Rightarrow> s))"

definition updatePressurePlates :: "Room \<Rightarrow> Room" where
  "updatePressurePlates s = foldl plateStep s (interactableIds s)"

section \<open>Winches, platforms, timed buttons, conveyors\<close>

definition snapPlatform :: "InteractableState \<Rightarrow> InteractableState" where
  "snapPlatform linked =
     (case i_state linked of
        Platform cp mv dir sp wps \<Rightarrow>
          (let moved = linked\<lparr>i_state := Platform 1 False dir sp wps\<rparr> in
           case wps of
             Some ws \<Rightarrow> if length ws > 1 then moved\<lparr>i_position := ws ! 1\<rparr> else moved
           | None \<Rightarrow> moved)
      | _ \<Rightarrow> linked)"

definition triggerWinchStep :: "Room \<Rightarrow> string \<Rightarrow> Room" where
  "triggerWinchStep s linkedId =
     (case getInteractable s linkedId of
        None \<Rightarrow> s
      | Some linked \<Rightarrow> modifyInteractable linkedId snapPlatform s)"

definition triggerWinchPlatforms :: "Room \<Rightarrow> InteractableState \<Rightarrow> Room" where
  "triggerWinchPlatforms s winch = foldl triggerWinchStep s (i_linkedIds winch)"

definition setWinch :: "real \<Rightarrow> bool \<Rightarrow> InteractableState \<Rightarrow> InteractableState" where
  "setWinch ext opr i =
     (case i_state i of
        Winch e1 o1 rp pid \<Rightarrow> i\<lparr>i_state := Winch ext opr rp pid\<rparr>
      | _ \<Rightarrow> i)"

text \<open>The power check of a winch: true when the winch is switched off for lack of power
  (the \<^verbatim>\<open>continue\<close> branch).\<close>

definition winchUnpowered :: "Room \<Rightarrow> bool \<Rightarrow> string option \<Rightarrow> bool" where
  "winchUnpowered s requiresPower poweredById =
     (case poweredById of
        None \<Rightarrow> False
      | Some pid \<Rightarrow>
          requiresPower \<and> pid \<noteq> [] \<and>
          (case getInteractable s pid of
             None \<Rightarrow> False
           | Some powerSource \<Rightarrow>
               (case i_state powerSource of
                  Lever pos rs \<Rightarrow> pos \<noteq> LOn
                | _ \<Rightarrow> False)))"

definition winchStep :: "Room \<Rightarrow> string \<Rightarrow> Room" where
  "winchStep s k =
     (case getInteractable s k of
        None \<Rightarrow> s
      | Some interactable \<Rightarrow>
          (case i_state interactable of
             Winch extended operating requiresPower poweredById \<Rightarrow>
               if winchUnpowered s requiresPower poweredById
               then modifyInteractable k (setWinch extended False) s
               else if operating then
                 (let extended' = min 1 (extended + 0.02) in
                  if extended' \<ge> 1
                  then triggerWinchPlatforms
                         (modifyInteractable k (setWinch extended' False) s) interactable
                  else modifyInteractable k (setWinch extended' True) s)
               else s
           | _ \<Rightarrow> s))"

definition updateWinches :: "Room \<Rightarrow> Room" where
  "updateWinches s = foldl winchStep s (interactableIds s)"

definition updatePlatform :: "InteractableState \<Rightarrow> InteractableState" where
  "updatePlatform interactable =
     (case i_state interactable of
        Platform currentPosition moving direction speed waypoints \<Rightarrow>
          (case waypoints of
             None \<Rightarrow> interactable
           | Some ws \<Rightarrow>
               if \<not> moving \<or> length ws < 2 then interactable
               else
                 (let cp1 = currentPosition + direction * speed * 0.02;
                      cp2 = (if cp1 \<ge> 1 then 1 else if cp1 \<le> 0 then 0 else cp1);
                      dir2 = (if cp1 \<ge> 1 then - 1 else if cp1 \<le> 0 then 1 else direction);
                      start = ws ! 0;
                      endp = ws ! 1 in
                  interactable
                    \<lparr>i_state := Platform cp2 moving dir2 speed waypoints,
                     i_position :=
                       \<lparr>px = px start + (px endp - px start) * cp2,
                        py = py start + (py endp - py start) * cp2,
                        pz = pz start + (pz endp - pz start) * cp2\<rparr>\<rparr>))
      | _ \<Rightarrow> interactable)"

text \<open>\<^verbatim>\<open>updatePlatforms\<close> touches each platform on its own, so the loop is a map.\<close>

definition updatePlatforms :: "Room \<Rightarrow> Room" where
  "updatePlatforms s = s\<lparr>interactables := map updatePlatform (interactables s)\<rparr>"

definition setButton :: "bool \<Rightarrow> real option \<Rightarrow> InteractableState \<Rightarrow> InteractableState" where
  "setButton pressed timer i =
     (case i_state i of
        Button p1 momentary t1 timerDuration \<Rightarrow>
          i\<lparr>i_state := Button pressed momentary timer timerDuration\<rparr>
      | _ \<Rightarrow> i)"

text \<open>A JavaScript number is truthy when it is not zero; \<^verbatim>\<open>undefined\<close> is falsy.\<close>

definition truthyNum :: "real option \<Rightarrow> bool" where
  "truthyNum v = (case v of None \<Rightarrow> False | Some n \<Rightarrow> n \<noteq> 0)"

definition timedButtonStep :: "Room \<Rightarrow> string \<Rightarrow> Room" where
  "timedButtonStep s k =
     (case getInteractable s k of
        None \<Rightarrow> s
      | Some interactable \<Rightarrow>
          (case i_state interactable of
             Button pressed momentary timer timerDuration \<Rightarrow>
               (case timer of
                  None \<Rightarrow> s
                | Some t \<Rightarrow>
                    if pressed \<and> truthyNum timerDuration then
                      (let t' = t - 50 in
                       if t' \<le> 0
                       then triggerLinkedObjects
                              (modifyInteractable k (setButton False None) s) interactable
                       else modifyInteractable k (setButton pressed (Some t')) s)
                    else s)
           | _ \<Rightarrow> s))"

definition updateTimedButtons :: "Room \<Rightarrow> Room" where
  "updateTimedButtons s = foldl timedButtonStep s (interactableIds s)"

definition isOnConveyor :: "WorldPos \<Rightarrow> WorldPos \<Rightarrow> real \<Rightarrow> real \<Rightarrow> bool" where
  "isOnConveyor entityPos conveyorPos width length' =
     (let dx = px entityPos - px conveyorPos;
          dy = py entityPos - py conveyorPos;
          halfWidth = width / 2;
          halfLength = length' / 2 in
      \<bar>dx\<bar> < halfLength \<and> \<bar>dy\<bar> < halfWidth)"

definition conveyPos :: "Vec2 \<Rightarrow> real \<Rightarrow> WorldPos \<Rightarrow> WorldPos" where
  "conveyPos direction conveyorSpeed p =
     p\<lparr>px := px p + vx direction * conveyorSpeed, py := py p + vy direction * conveyorSpeed\<rparr>"

definition conveyEntity ::
  "WorldPos \<Rightarrow> Vec2 \<Rightarrow> real \<Rightarrow> real \<Rightarrow> real \<Rightarrow> EntityState \<Rightarrow> EntityState" where
  "conveyEntity conveyorPos direction conveyorSpeed width length' e =
     (if isOnConveyor (e_position e) conveyorPos width length'
      then e\<lparr>e_position := conveyPos direction conveyorSpeed (e_position e)\<rparr>
      else e)"

definition conveyCrate ::
  "WorldPos \<Rightarrow> Vec2 \<Rightarrow> real \<Rightarrow> real \<Rightarrow> real \<Rightarrow> InteractableState \<Rightarrow> InteractableState"
  where
  "conveyCrate conveyorPos direction conveyorSpeed width length' other =
     (if isCrate other \<and> isOnConveyor (i_position other) conveyorPos width length'
      then other\<lparr>i_position := conveyPos direction conveyorSpeed (i_position other)\<rparr>
      else other)"

definition conveyorStep :: "Room \<Rightarrow> string \<Rightarrow> Room" where
  "conveyorStep s k =
     (case getInteractable s k of
        None \<Rightarrow> s
      | Some interactable \<Rightarrow>
          (case i_state interactable of
             Conveyor active direction speed width length' \<Rightarrow>
               if \<not> active then s
               else
                 (let conveyorSpeed = speed * 0.05;
                      cpos = i_position interactable in
                  s\<lparr>entities :=
                       map (conveyEntity cpos direction conveyorSpeed width length')
                         (entities s),
                     interactables :=
                       map (conveyCrate cpos direction conveyorSpeed width length')
                         (interactables s)\<rparr>)
           | _ \<Rightarrow> s))"

definition updateConveyors :: "Room \<Rightarrow> Room" where
  "updateConveyors s = foldl conveyorStep s (interactableIds s)"

section \<open>Guards\<close>

text \<open>\<^verbatim>\<open>Math.atan2(y, x)\<close> on reals, and the bearing in degrees the guards use.\<close>

definition atan2 :: "real \<Rightarrow> real \<Rightarrow> real" where
  "atan2 yy xx =
     (if xx > 0 then arctan (yy / xx)
      else if xx < 0 \<and> yy \<ge> 0 then arctan (yy / xx) + pi
      else if xx < 0 then arctan (yy / xx) - pi
      else if yy > 0 then pi / 2
      else if yy < 0 then - (pi / 2)
      else 0)"

definition bearing :: "real \<Rightarrow> real \<Rightarrow> real" where
  "bearing dy dx = atan2 dy dx * (180 / pi)"

text \<open>The common movement of a guard by \<open>speed\<close> along \<open>(dx, dy)\<close> of length \<open>dst\<close>.\<close>

definition moveGuard :: "GuardState \<Rightarrow> real \<Rightarrow> real \<Rightarrow> real \<Rightarrow> real \<Rightarrow> GuardState" where
  "moveGuard guard dx dy dst speed =
     guard\<lparr>g_position := (g_position guard)
              \<lparr>px := px (g_position guard) + (dx / dst) * speed,
               py := py (g_position guard) + (dy / dst) * speed\<rparr>,
           g_facing := bearing dy dx\<rparr>"

text \<open>
  \<^verbatim>\<open>updateGuardPatrol\<close> reads \<^verbatim>\<open>patrolRoute[patrolIndex]\<close> and then its
  coordinates: with an index outside the route the read is \<^verbatim>\<open>undefined\<close> and the
  field access throws, which is the result \<open>None\<close>.
\<close>

definition updateGuardPatrol :: "GuardState \<Rightarrow> GuardState option" where
  "updateGuardPatrol guard =
     (if length (g_patrolRoute guard) = 0 then Some guard
      else if g_patrolIndex guard < 0 \<or> g_patrolIndex guard \<ge> int (length (g_patrolRoute guard))
        then None
      else
        (let target = g_patrolRoute guard ! nat (g_patrolIndex guard);
             dx = px target - px (g_position guard);
             dy = py target - py (g_position guard);
             dst = sqrt (dx * dx + dy * dy) in
         if dst < 0.2 then
           (let idx = g_patrolIndex guard + g_patrolDirection guard in
            if idx \<ge> int (length (g_patrolRoute guard))
              then Some (guard\<lparr>g_patrolIndex := int (length (g_patrolRoute guard)) - 2,
                               g_patrolDirection := - 1\<rparr>)
            else if idx < 0
              then Some (guard\<lparr>g_patrolIndex := 1, g_patrolDirection := 1\<rparr>)
            else Some (guard\<lparr>g_patrolIndex := idx\<rparr>))
         else Some (moveGuard guard dx dy dst (g_moveSpeed guard * 0.05))))"

definition updateGuardSuspicious :: "GuardState \<Rightarrow> GuardState" where
  "updateGuardSuspicious guard =
     (let g1 = guard\<lparr>g_alertTimer := g_alertTimer guard - 50\<rparr>;
          g2 = (case g_lastSeenPlayerPos g1 of
                  None \<Rightarrow> g1
                | Some lastSeen \<Rightarrow>
                    (let dx = px lastSeen - px (g_position g1);
                         dy = py lastSeen - py (g_position g1);
                         dst = sqrt (dx * dx + dy * dy) in
                     if dst > 0.5 then moveGuard g1 dx dy dst (g_moveSpeed g1 * 0.03)
                     else g1)) in
      if g_alertTimer g2 \<le> 0
      then g2\<lparr>g_alertState := Returning, g_lastSeenPlayerPos := None\<rparr>
      else g2)"

definition updateGuardAlert :: "GuardState \<Rightarrow> GuardState" where
  "updateGuardAlert guard =
     (case g_lastSeenPlayerPos guard of
        None \<Rightarrow> guard\<lparr>g_alertState := Suspicious, g_alertTimer := 3000\<rparr>
      | Some lastSeen \<Rightarrow>
          (let dx = px lastSeen - px (g_position guard);
               dy = py lastSeen - py (g_position guard);
               dst = sqrt (dx * dx + dy * dy) in
           if dst > 0.3 then moveGuard guard dx dy dst (g_moveSpeed guard * 0.07)
           else guard))"

text \<open>The search for the nearest waypoint: \<open>nearestDist = None\<close> stands for
  \<^verbatim>\<open>Infinity\<close>, below which every distance lies.\<close>

fun nearestWaypoint ::
  "WorldPos \<Rightarrow> WorldPos list \<Rightarrow> nat \<Rightarrow> nat \<Rightarrow> real option \<Rightarrow> nat" where
  "nearestWaypoint pos [] i nearestIndex nearestDist = nearestIndex"
| "nearestWaypoint pos (wp # wps) i nearestIndex nearestDist =
     (let dx = px wp - px pos;
          dy = py wp - py pos;
          dst = sqrt (dx * dx + dy * dy) in
      if (case nearestDist of None \<Rightarrow> True | Some nd \<Rightarrow> dst < nd)
      then nearestWaypoint pos wps (Suc i) i (Some dst)
      else nearestWaypoint pos wps (Suc i) nearestIndex nearestDist)"

definition updateGuardReturning :: "GuardState \<Rightarrow> GuardState" where
  "updateGuardReturning guard =
     (if length (g_patrolRoute guard) = 0 then guard\<lparr>g_alertState := GIdle\<rparr>
      else
        (let nearestIndex = nearestWaypoint (g_position guard) (g_patrolRoute guard) 0 0 None;
             target = g_patrolRoute guard ! nearestIndex;
             dx = px target - px (g_position guard);
             dy = py target - py (g_position guard);
             dst = sqrt (dx * dx + dy * dy) in
         if dst < 0.3
         then guard\<lparr>g_patrolIndex := int nearestIndex, g_alertState := GIdle\<rparr>
         else moveGuard guard dx dy dst (g_moveSpeed guard * 0.04)))"

definition updateGuard :: "GuardState \<Rightarrow> GuardState option" where
  "updateGuard guard =
     (case g_alertState guard of
        GIdle \<Rightarrow> updateGuardPatrol guard
      | Suspicious \<Rightarrow> Some (updateGuardSuspicious guard)
      | Alert \<Rightarrow> Some (updateGuardAlert guard)
      | Returning \<Rightarrow> Some (updateGuardReturning guard))"

text \<open>
  A call that throws leaves the room as mutated so far. The loop over the guards stops at
  the first guard whose update throws: the guards before it are updated, the others are
  not; the flag tells whether the loop ran to its end.
\<close>

datatype Outcome = Returned Room | Threw Room

definition stateOf :: "Outcome \<Rightarrow> Room" where
  "stateOf r = (case r of Returned s \<Rightarrow> s | Threw s \<Rightarrow> s)"

fun updateGuardList :: "GuardState list \<Rightarrow> GuardState list \<times> bool" where
  "updateGuardList [] = ([], True)"
| "updateGuardList (g # gs) =
     (case updateGuard g of
        None \<Rightarrow> (g # gs, False)
      | Some g' \<Rightarrow> (g' # fst (updateGuardList gs), snd (updateGuardList gs)))"

definition updateGuards :: "Room \<Rightarrow> Outcome" where
  "updateGuards s =
     (if snd (updateGuardList (guards s))
      then Returned (s\<lparr>guards := fst (updateGuardList (guards s))\<rparr>)
      else Threw (s\<lparr>guards := fst (updateGuardList (guards s))\<rparr>))"

section \<open>Distractions\<close>

definition hearingRange :: "DistractionType \<Rightarrow> real" where
  "hearingRange ty = (if ty = Whistle then 8 else 5)"

definition hearsDistraction :: "DistractionEvent \<Rightarrow> GuardState \<Rightarrow> bool" where
  "hearsDistraction distraction guard =
     (g_alertState guard \<noteq> Alert \<and>
      planarDist (ds_position distraction) (g_position guard)
        < hearingRange (ds_type distraction))"

definition distractGuard :: "DistractionEvent \<Rightarrow> GuardState \<Rightarrow> GuardState" where
  "distractGuard distraction guard =
     (if hearsDistraction distraction guard
      then guard\<lparr>g_alertState := Suspicious, g_alertTimer := 5000,
                 g_lastSeenPlayerPos := Some (ds_position distraction)\<rparr>
      else guard)"

definition liveDistraction :: "real \<Rightarrow> DistractionEvent \<Rightarrow> bool" where
  "liveDistraction now d = (now - ds_createdAt d < ds_duration d)"

definition updateDistractions :: "real \<Rightarrow> Room \<Rightarrow> Room" where
  "updateDistractions now s =
     (let ds = filter (liveDistraction now) (distractions s) in
      s\<lparr>distractions := ds,
        guards := foldl (\<lambda>gs d. map (distractGuard d) gs) (guards s) ds\<rparr>)"

definition createDistraction :: "real \<Rightarrow> WorldPos \<Rightarrow> DistractionType \<Rightarrow> Room \<Rightarrow> Room" where
  "createDistraction now position ty s =
     s\<lparr>distractions := distractions s @
          [\<lparr>ds_position = position, ds_type = ty, ds_createdAt = now,
            ds_duration = (if ty = Whistle then 3000 else 2000)\<rparr>]\<rparr>"

section \<open>Respawn, hazards and guard detection\<close>

definition getEntity :: "Room \<Rightarrow> string \<Rightarrow> EntityState option" where
  "getEntity s k = find (\<lambda>e. e_id e = k) (entities s)"

definition modifyEntity :: "string \<Rightarrow> (EntityState \<Rightarrow> EntityState) \<Rightarrow> Room \<Rightarrow> Room" where
  "modifyEntity k f s =
     s\<lparr>entities := map (\<lambda>e. if e_id e = k then f e else e) (entities s)\<rparr>"

definition getGuard :: "Room \<Rightarrow> string \<Rightarrow> GuardState option" where
  "getGuard s k = find (\<lambda>g. g_id g = k) (guards s)"

definition modifyGuard :: "string \<Rightarrow> (GuardState \<Rightarrow> GuardState) \<Rightarrow> Room \<Rightarrow> Room" where
  "modifyGuard k f s =
     s\<lparr>guards := map (\<lambda>g. if g_id g = k then f g else g) (guards s)\<rparr>"

definition getSpawnPosition :: "Room \<Rightarrow> Role \<Rightarrow> WorldPos" where
  "getSpawnPosition s role =
     (case (case levelData s of
              None \<Rightarrow> None
            | Some lvl \<Rightarrow> if role = Dog then l_spawn_dog lvl else l_spawn_panda lvl) of
        Some spawn \<Rightarrow> spawn
      | None \<Rightarrow>
          if role = Dog then \<lparr>px = 5, py = 5, pz = 0\<rparr> else \<lparr>px = 7, py = 5, pz = 0\<rparr>)"

definition resetEntity :: "WorldPos \<Rightarrow> EntityState \<Rightarrow> EntityState" where
  "resetEntity spawn e =
     e\<lparr>e_position := spawn, e_velocity := \<lparr>vx = 0, vy = 0\<rparr>, e_state := Idle\<rparr>"

definition respawnEntity :: "Room \<Rightarrow> EntityState \<Rightarrow> Room" where
  "respawnEntity s entity =
     (let role = e_type entity;
          spawn = getSpawnPosition s role;
          s1 = modifyEntity (e_id entity) (resetEntity spawn) s in
      s1\<lparr>pendingRespawns := pendingRespawns s1 @
            [\<lparr>r_entityId = e_id entity, r_role = role, r_position = spawn,
              r_reason = ByHazard\<rparr>]\<rparr>)"

definition hazardStep :: "Constants \<Rightarrow> string \<Rightarrow> Room \<Rightarrow> InteractableState \<Rightarrow> Room" where
  "hazardStep K entityId s interactable =
     (case i_state interactable of
        Hazard active \<Rightarrow>
          if \<not> active then s
          else
            (case getEntity s entityId of
               None \<Rightarrow> s
             | Some entity \<Rightarrow>
                 if planarDist (e_position entity) (i_position interactable)
                      < HAZARD_COLLISION_RADIUS K
                 then respawnEntity s entity
                 else s)
      | _ \<Rightarrow> s)"

definition hazardEntityStep :: "Constants \<Rightarrow> Room \<Rightarrow> string \<Rightarrow> Room" where
  "hazardEntityStep K s entityId = foldl (hazardStep K entityId) s (interactables s)"

definition checkHazardCollisions :: "Constants \<Rightarrow> Room \<Rightarrow> Room" where
  "checkHazardCollisions K s = foldl (hazardEntityStep K) s (map e_id (entities s))"

definition checkpointFor :: "Room \<Rightarrow> Role \<Rightarrow> WorldPos" where
  "checkpointFor s role =
     (case checkpointPosition s of
        Some cp \<Rightarrow> if role = Dog then cp_dog cp else cp_panda cp
      | None \<Rightarrow> getSpawnPosition s role)"

definition respawnPlayersAtCheckpoint :: "RespawnReason \<Rightarrow> Room \<Rightarrow> Room" where
  "respawnPlayersAtCheckpoint reason s =
     s\<lparr>entities := map (\<lambda>e. resetEntity (checkpointFor s (e_type e)) e) (entities s),
       pendingRespawns := pendingRespawns s @
         map (\<lambda>e. \<lparr>r_entityId = e_id e, r_role = e_type e,
                    r_position = checkpointFor s (e_type e), r_reason = reason\<rparr>)
           (entities s)\<rparr>"

definition setCheckpoint :: "WorldPos \<Rightarrow> WorldPos \<Rightarrow> Room \<Rightarrow> Room" where
  "setCheckpoint dogPos pandaPos s =
     s\<lparr>checkpointPosition := Some \<lparr>cp_dog = dogPos, cp_panda = pandaPos\<rparr>\<rparr>"

definition getPendingRespawns :: "Room \<Rightarrow> RespawnEvent list \<times> Room" where
  "getPendingRespawns s = (pendingRespawns s, s\<lparr>pendingRespawns := []\<rparr>)"

text \<open>The two normalisation loops of \<^verbatim>\<open>canGuardSeeEntity\<close>.\<close>

function normalizeDown :: "real \<Rightarrow> real" where
  "normalizeDown a = (if a > 180 then normalizeDown (a - 360) else a)"
  by pat_completeness auto
termination
proof (relation "measure (\<lambda>a. nat \<lceil>a\<rceil>)")
  show "wf (measure (\<lambda>a::real. nat \<lceil>a\<rceil>))" by simp
next
  fix a :: real assume "180 < a"
  then have "\<lceil>a - 360\<rceil> < \<lceil>a\<rceil>" and "0 < \<lceil>a\<rceil>" by linarith+
  then show "(a - 360, a) \<in> measure (\<lambda>a. nat \<lceil>a\<rceil>)" by simp
qed

function normalizeUp :: "real \<Rightarrow> real" where
  "normalizeUp a = (if a < - 180 then normalizeUp (a + 360) else a)"
  by pat_completeness auto
termination
proof (relation "measure (\<lambda>a. nat \<lceil>- a\<rceil>)")
  show "wf (measure (\<lambda>a::real. nat \<lceil>- a\<rceil>))" by simp
next
  fix a :: real assume "a < - 180"
  then have "\<lceil>- (a + 360)\<rceil> < \<lceil>- a\<rceil>" and "0 < \<lceil>- a\<rceil>" by linarith+
  then show "(a + 360, a) \<in> measure (\<lambda>a. nat \<lceil>- a\<rceil>)" by simp
qed

text \<open>The loop equations are unfolded by hand where a proof needs them.\<close>

declare normalizeDown.simps [simp del] normalizeUp.simps [simp del]

definition canGuardSeeEntity :: "Room \<Rightarrow> GuardState \<Rightarrow> EntityState \<Rightarrow> bool" where
  "canGuardSeeEntity s guard entity =
     (let dx = px (e_position entity) - px (g_position guard);
          dy = py (e_position entity) - py (g_position guard);
          dst = sqrt (dx * dx + dy * dy) in
      if dst > g_visionRange guard then False
      else
        (let angleToEntity = bearing dy dx;
             angleDiff = normalizeUp (normalizeDown (angleToEntity - g_facing guard)) in
         if \<bar>angleDiff\<bar> > g_visionAngle guard / 2 then False
         else
           (let steps = nat \<lceil>dst * 2\<rceil> in
            list_all
              (\<lambda>i. isPositionWalkable s
                     (px (g_position guard) + dx * (real i / real steps))
                     (py (g_position guard) + dy * (real i / real steps)) 0.1)
              [1 ..< steps])))"

definition seeEntity :: "Room \<Rightarrow> GuardState \<Rightarrow> EntityState \<Rightarrow> GuardState" where
  "seeEntity s guard entity =
     (if canGuardSeeEntity s guard entity
      then guard\<lparr>g_alertState := Alert,
                 g_lastSeenPlayerPos := Some (e_position entity),
                 g_alertTimer := 5000\<rparr>
      else guard)"

definition catchStep :: "string \<Rightarrow> Room \<Rightarrow> string \<Rightarrow> Room" where
  "catchStep guardId s entityId =
     (case getGuard s guardId of
        None \<Rightarrow> s
      | Some guard \<Rightarrow>
          (case getEntity s entityId of
             None \<Rightarrow> s
           | Some entity \<Rightarrow>
               if planarDist (e_position entity) (g_position guard) < 0.8
                  \<and> g_alertState guard = Alert
               then modifyGuard guardId
                      (\<lambda>g. g\<lparr>g_alertState := Returning, g_lastSeenPlayerPos := None\<rparr>)
                      (respawnPlayersAtCheckpoint ByGuard s)
               else s))"

definition guardDetectStep :: "Room \<Rightarrow> string \<Rightarrow> Room" where
  "guardDetectStep s guardId =
     (case getGuard s guardId of
        None \<Rightarrow> s
      | Some guard \<Rightarrow>
          (let s1 = modifyGuard guardId (\<lambda>g. foldl (seeEntity s) g (entities s)) s in
           foldl (catchStep guardId) s1 (map e_id (entities s1))))"

definition checkGuardDetection :: "Room \<Rightarrow> Room" where
  "checkGuardDetection s = foldl guardDetectStep s (map g_id (guards s))"

section \<open>Puzzle evaluation\<close>

definition leverPosName :: "LeverPos \<Rightarrow> string" where
  "leverPosName p = (case p of LOff \<Rightarrow> ''off'' | LOn \<Rightarrow> ''on'' | LHeld \<Rightarrow> ''held'')"

definition thresholdName :: "Threshold \<Rightarrow> string" where
  "thresholdName th = (case th of Light \<Rightarrow> ''light'' | Heavy \<Rightarrow> ''heavy'')"

text \<open>The state bag read by field name, as \<^verbatim>\<open>checkObjective\<close> does; fields the Room
  itself never reads are kept in \<open>i_extra\<close>.\<close>

definition stateField :: "InteractableState \<Rightarrow> string \<Rightarrow> JsVal option" where
  "stateField i key =
     (let fields =
        (case i_state i of
           Door opn lck hv \<Rightarrow>
             [(''open'', JBool opn), (''locked'', JBool lck), (''requiresHeavy'', JBool hv)]
         | Lever pos rs \<Rightarrow>
             [(''position'', JStr (leverPosName pos)), (''requiresStrength'', JBool rs)]
         | PressurePlate a th w \<Rightarrow>
             [(''activated'', JBool a), (''weightThreshold'', JStr (thresholdName th)),
              (''currentWeight'', JNum w)]
         | Crate bp gx gy \<Rightarrow>
             [(''beingPushed'', JBool bp), (''gridX'', JNum (real_of_int gx)),
              (''gridY'', JNum (real_of_int gy))]
         | Winch ext opr rp pid \<Rightarrow>
             [(''extended'', JNum ext), (''operating'', JBool opr),
              (''requiresPower'', JBool rp)]
             @ (case pid of None \<Rightarrow> [] | Some p \<Rightarrow> [(''poweredById'', JStr p)])
         | Platform cp mv dir sp wps \<Rightarrow>
             [(''currentPosition'', JNum cp), (''moving'', JBool mv),
              (''direction'', JNum dir), (''speed'', JNum sp)]
         | Button pr mo tm td \<Rightarrow>
             [(''pressed'', JBool pr), (''momentary'', JBool mo)]
             @ (case tm of None \<Rightarrow> [] | Some v \<Rightarrow> [(''timer'', JNum v)])
             @ (case td of None \<Rightarrow> [] | Some v \<Rightarrow> [(''timerDuration'', JNum v)])
         | Hazard a \<Rightarrow> [(''active'', JBool a)]
         | Conveyor a dir sp w l \<Rightarrow>
             [(''active'', JBool a), (''speed'', JNum sp), (''width'', JNum w),
              (''length'', JNum l)]
         | _ \<Rightarrow> []) in
      map_of (fields @ i_extra i) key)"

definition inZone :: "WorldPos \<Rightarrow> WorldPos \<Rightarrow> WorldPos \<Rightarrow> bool" where
  "inZone zoneMin zoneMax pos =
     (px pos \<ge> px zoneMin \<and> px pos \<le> px zoneMax \<and>
      py pos \<ge> py zoneMin \<and> py pos \<le> py zoneMax)"

definition checkObjective :: "Room \<Rightarrow> PuzzleCondition \<Rightarrow> bool" where
  "checkObjective s condition =
     (case condition of
        InteractableStateCond targetId st \<Rightarrow>
          (case (targetId, st) of
             (Some tid, Some expected) \<Rightarrow>
               if tid = [] then False
               else
                 (case getInteractable s tid of
                    None \<Rightarrow> False
                  | Some interactable \<Rightarrow>
                      list_all (\<lambda>(key, v). stateField interactable key = Some v) expected)
           | _ \<Rightarrow> False)
      | BothPlayersInZone zoneMin zoneMax \<Rightarrow>
          (case (zoneMin, zoneMax) of
             (Some zmin, Some zmax) \<Rightarrow>
               list_ex (\<lambda>e. inZone zmin zmax (e_position e) \<and> e_type e = Dog) (entities s) \<and>
               list_ex (\<lambda>e. inZone zmin zmax (e_position e) \<and> e_type e = Panda) (entities s)
           | _ \<Rightarrow> False)
      | AllObjectives \<Rightarrow> True
      | UnknownCondition \<Rightarrow> False)"

definition puzzleStep :: "Room \<Rightarrow> PuzzleConfig \<Rightarrow> Room" where
  "puzzleStep s puzzleConfig =
     (case puzzleStates s (p_id puzzleConfig) of
        None \<Rightarrow> s
      | Some puzzleState \<Rightarrow>
          if ps_completed puzzleState then s
          else
            (let objs = foldl (\<lambda>m ob. m(o_id ob \<mapsto> checkObjective s (o_condition ob)))
                          (ps_objectives puzzleState) (p_objectives puzzleConfig);
                 allRequired =
                   list_all (\<lambda>ob. o_optional ob \<or> checkObjective s (o_condition ob))
                     (p_objectives puzzleConfig);
                 s1 = s\<lparr>puzzleStates := (puzzleStates s)
                          (p_id puzzleConfig \<mapsto>
                             \<lparr>ps_completed = allRequired, ps_objectives = objs\<rparr>)\<rparr> in
             if allRequired then
               (case p_completionReward puzzleConfig of
                  None \<Rightarrow> s1
                | Some rewardId \<Rightarrow>
                    if rewardId = [] then s1
                    else
                      (case getInteractable s1 rewardId of
                         None \<Rightarrow> s1
                       | Some reward \<Rightarrow> modifyInteractable rewardId (setDoor False True) s1))
             else s1))"

definition checkPuzzleCompletion :: "Room \<Rightarrow> Room" where
  "checkPuzzleCompletion s =
     (case levelData s of
        None \<Rightarrow> s
      | Some lvl \<Rightarrow> foldl puzzleStep s (l_puzzles lvl))"

section \<open>Pings\<close>

definition expirePings :: "real \<Rightarrow> Room \<Rightarrow> Room" where
  "expirePings now s = s\<lparr>pings := filter (\<lambda>p. \<not> now \<ge> pg_expiresAt p) (pings s)\<rparr>"

section \<open>The tick\<close>

text \<open>
  One call of \<^verbatim>\<open>tick()\<close>. The clock is read in \<^verbatim>\<open>updateDistractions\<close> and in
  \<^verbatim>\<open>expirePings\<close>; one call is taken to read the same value \<open>now\<close> throughout.
  When the guard update throws, the tick stops there with the room as mutated so far.
\<close>

definition tickBeforeGuards :: "Room \<Rightarrow> Room" where
  "tickBeforeGuards s =
     updateConveyors (updateTimedButtons (updatePlatforms (updateWinches
       (updatePressurePlates (s\<lparr>tick_n := tick_n s + 1\<rparr>)))))"

definition tickAfterGuards :: "Constants \<Rightarrow> real \<Rightarrow> Room \<Rightarrow> Room" where
  "tickAfterGuards K now s =
     expirePings now (checkPuzzleCompletion (checkGuardDetection
       (checkHazardCollisions K (updateDistractions now s))))"

definition tick :: "Constants \<Rightarrow> real \<Rightarrow> Room \<Rightarrow> Outcome" where
  "tick K now s =
     (if paused s then Returned s
      else
        (case updateGuards (tickBeforeGuards s) of
           Threw s6 \<Rightarrow> Threw s6
         | Returned s6 \<Rightarrow> Returned (tickAfterGuards K now s6)))"

section \<open>Input handling\<close>

record InputState =
  moveX :: real
  moveY :: real
  run :: bool

definition entityIdOf :: "Role \<Rightarrow> string" where
  "entityIdOf role = (if role = Dog then ''dog_entity'' else ''panda_entity'')"

definition getDirection :: "real \<Rightarrow> real \<Rightarrow> Direction8" where
  "getDirection xx yy =
     (if yy < 0 \<and> xx = 0 then DirN
      else if yy < 0 \<and> xx > 0 then DirNE
      else if yy = 0 \<and> xx > 0 then DirE
      else if yy > 0 \<and> xx > 0 then DirSE
      else if yy > 0 \<and> xx = 0 then DirS
      else if yy > 0 \<and> xx < 0 then DirSW
      else if yy = 0 \<and> xx < 0 then DirW
      else if yy < 0 \<and> xx < 0 then DirNW
      else DirS)"

definition handleInput ::
  "Constants \<Rightarrow> string \<Rightarrow> nat \<Rightarrow> InputState \<Rightarrow> WorldPos \<Rightarrow> Room \<Rightarrow> Room" where
  "handleInput K playerId tk input position s =
     (case players s playerId of
        None \<Rightarrow> s
      | Some role \<Rightarrow>
          (case getEntity s (entityIdOf role) of
             None \<Rightarrow> s
           | Some entity \<Rightarrow>
               (let speed =
                      (if role = Dog
                       then (if run input then DOG_RUN_SPEED K else DOG_WALK_SPEED K)
                       else (if run input then PANDA_RUN_SPEED K else PANDA_WALK_SPEED K));
                    moving = (moveX input \<noteq> 0 \<or> moveY input \<noteq> 0);
                    validatedPosition = validatePosition K s (e_position entity) position role
                in
                modifyEntity (entityIdOf role)
                  (\<lambda>e. e\<lparr>e_velocity := \<lparr>vx = moveX input * speed, vy = moveY input * speed\<rparr>,
                          e_facing := (if moving then getDirection (moveX input) (moveY input)
                                       else e_facing e),
                          e_state := (if moving then (if run input then Run else Walk)
                                      else Idle),
                          e_position := validatedPosition\<rparr>)
                  s)))"

section \<open>Interactions\<close>

record InteractionResult =
  success :: bool
  newState :: "IState option"
  reason :: "string option"

definition failure :: "string \<Rightarrow> InteractionResult" where
  "failure why = \<lparr>success = False, newState = None, reason = Some why\<rparr>"

definition succeeded :: "Room \<Rightarrow> string \<Rightarrow> InteractionResult \<times> Room" where
  "succeeded s k =
     (\<lparr>success = True, newState = map_option i_state (getInteractable s k), reason = None\<rparr>, s)"

definition canInteract :: "Role \<Rightarrow> InteractableState \<Rightarrow> string \<Rightarrow> bool" where
  "canInteract role interactable action =
     (case i_state interactable of
        Crate bp gx gy \<Rightarrow> role = Panda \<and> action = ''push''
      | Winch ext opr rp pid \<Rightarrow> role = Panda
      | PressurePlate a th w \<Rightarrow> False
      | Lever pos requiresStrength \<Rightarrow> \<not> (requiresStrength \<and> role = Dog)
      | Door opn locked requiresHeavy \<Rightarrow>
          if locked then False else \<not> (requiresHeavy \<and> role = Dog)
      | CameraNode \<Rightarrow> role = Dog
      | Button pr mo tm td \<Rightarrow> True
      | _ \<Rightarrow> True)"

definition isValidCratePosition :: "Room \<Rightarrow> real \<Rightarrow> real \<Rightarrow> bool" where
  "isValidCratePosition s xx yy =
     (let levelOk =
        (case levelData s of
           None \<Rightarrow> True
         | Some lvl \<Rightarrow>
             if xx < 1 \<or> xx \<ge> l_width lvl - 1 \<or> yy < 1 \<or> yy \<ge> l_height lvl - 1 then False
             else
               (let tileY = \<lfloor>yy\<rfloor>; tileX = \<lfloor>xx\<rfloor> in
                if 0 \<le> tileY \<and> tileY < int (length (l_tiles lvl)) then
                  (let row = l_tiles lvl ! nat tileY in
                   if 0 \<le> tileX \<and> tileX < int (length row) then
                     (let tile = row ! nat tileX in
                      \<not> (\<not> t_walkable tile \<or> t_type tile = Water \<or> t_type tile = Void))
                   else True)
                else True)) in
      if \<not> levelOk then False
      else \<not> list_ex
             (\<lambda>other. isCrate other \<and> \<bar>px (i_position other) - xx\<bar> < 0.9
                        \<and> \<bar>py (i_position other) - yy\<bar> < 0.9)
             (interactables s))"

definition pushDirection :: "real \<Rightarrow> real \<Rightarrow> real \<times> real" where
  "pushDirection dx dy =
     (if \<bar>dx\<bar> > \<bar>dy\<bar> then (if dx > 0 then 1 else - 1, 0)
      else (0, if dy > 0 then 1 else - 1))"

definition pushCrate :: "real \<Rightarrow> real \<Rightarrow> InteractableState \<Rightarrow> InteractableState" where
  "pushCrate newX newY i =
     (case i_state i of
        Crate bp gx gy \<Rightarrow>
          i\<lparr>i_state := Crate True \<lfloor>newX + 0.5\<rfloor> \<lfloor>newY + 0.5\<rfloor>,
            i_position := (i_position i)\<lparr>px := newX, py := newY\<rparr>\<rparr>
      | _ \<Rightarrow> i)"

text \<open>The callback of the 200 ms \<^verbatim>\<open>setTimeout\<close> a successful push schedules; the
  environment runs it between two calls of the Room.\<close>

definition clearBeingPushed :: "string \<Rightarrow> Room \<Rightarrow> Room" where
  "clearBeingPushed crateId s =
     modifyInteractable crateId
       (\<lambda>i. case i_state i of Crate bp gx gy \<Rightarrow> i\<lparr>i_state := Crate False gx gy\<rparr> | _ \<Rightarrow> i) s"

definition setLever :: "InteractableState \<Rightarrow> InteractableState" where
  "setLever i =
     (case i_state i of
        Lever pos rs \<Rightarrow> i\<lparr>i_state := Lever (if pos = LOff then LOn else LOff) rs\<rparr>
      | _ \<Rightarrow> i)"

definition setPressed :: "bool \<Rightarrow> InteractableState \<Rightarrow> InteractableState" where
  "setPressed p i =
     (case i_state i of
        Button pr mo tm td \<Rightarrow> i\<lparr>i_state := Button p mo tm td\<rparr>
      | _ \<Rightarrow> i)"

definition setOperating :: "bool \<Rightarrow> InteractableState \<Rightarrow> InteractableState" where
  "setOperating opr i =
     (case i_state i of
        Winch ext o1 rp pid \<Rightarrow> i\<lparr>i_state := Winch ext opr rp pid\<rparr>
      | _ \<Rightarrow> i)"

definition flipOpen :: "InteractableState \<Rightarrow> InteractableState" where
  "flipOpen i =
     (case i_state i of
        Door opn lck hv \<Rightarrow> i\<lparr>i_state := Door (\<not> opn) lck hv\<rparr>
      | _ \<Rightarrow> i)"

definition processInteraction ::
  "Room \<Rightarrow> InteractableState \<Rightarrow> string \<Rightarrow> Role \<Rightarrow> InteractionResult \<times> Room" where
  "processInteraction s interactable action role =
     (let k = i_id interactable; invalid = (failure ''Invalid action'', s) in
      case i_state interactable of
        Door opn lck hv \<Rightarrow>
          if action = ''toggle'' then succeeded (modifyInteractable k flipOpen s) k
          else invalid
      | Lever pos rs \<Rightarrow>
          if action = ''toggle''
          then succeeded (triggerLinkedObjects (modifyInteractable k setLever s) interactable) k
          else invalid
      | Button pressed momentary tm td \<Rightarrow>
          if action = ''press''
          then succeeded
                 (triggerLinkedObjects (modifyInteractable k (setPressed True) s) interactable) k
          else if action = ''release'' \<and> momentary
          then succeeded (modifyInteractable k (setPressed False) s) k
          else invalid
      | Crate bp gx gy \<Rightarrow>
          if action = ''push'' then
            (case getEntity s (entityIdOf role) of
               None \<Rightarrow> invalid
             | Some entity \<Rightarrow>
                 (let dx = px (i_position interactable) - px (e_position entity);
                      dy = py (i_position interactable) - py (e_position entity);
                      newX = px (i_position interactable) + fst (pushDirection dx dy);
                      newY = py (i_position interactable) + snd (pushDirection dx dy) in
                  if isValidCratePosition s newX newY
                  then succeeded (modifyInteractable k (pushCrate newX newY) s) k
                  else (failure ''Cannot push there'', s)))
          else invalid
      | Winch ext opr rp pid \<Rightarrow>
          if action = ''operate_start''
          then succeeded (modifyInteractable k (setOperating True) s) k
          else if action = ''operate_stop''
          then succeeded (modifyInteractable k (setOperating False) s) k
          else invalid
      | _ \<Rightarrow> invalid)"

definition handleInteraction ::
  "string \<Rightarrow> string \<Rightarrow> string \<Rightarrow> Room \<Rightarrow> InteractionResult \<times> Room" where
  "handleInteraction playerId targetId action s =
     (case players s playerId of
        None \<Rightarrow> (failure ''Invalid player'', s)
      | Some role \<Rightarrow>
          (case getInteractable s targetId of
             None \<Rightarrow> (failure ''Interactable not found'', s)
           | Some interactable \<Rightarrow>
               if \<not> canInteract role interactable action
               then (failure ''Permission denied'', s)
               else processInteraction s interactable action role))"

section \<open>The ping subsystem\<close>

definition olderPing :: "Role \<Rightarrow> PingMarker option \<Rightarrow> PingMarker \<Rightarrow> PingMarker option" where
  "olderPing role oldest ping =
     (if pg_createdBy ping = role then
        (case oldest of
           None \<Rightarrow> Some ping
         | Some old \<Rightarrow> if pg_createdAt ping < pg_createdAt old then Some ping else oldest)
      else oldest)"

definition oldestPing :: "Role \<Rightarrow> PingMarker list \<Rightarrow> PingMarker option" where
  "oldestPing role ps = foldl (olderPing role) None ps"

definition deletePing :: "string \<Rightarrow> PingMarker list \<Rightarrow> PingMarker list" where
  "deletePing k ps = filter (\<lambda>p. pg_id p \<noteq> k) ps"

text \<open>\<^verbatim>\<open>Map.set\<close>: an existing key keeps its place, a new key goes last.\<close>

definition setPing :: "PingMarker \<Rightarrow> PingMarker list \<Rightarrow> PingMarker list" where
  "setPing ping ps =
     (if list_ex (\<lambda>p. pg_id p = pg_id ping) ps
      then map (\<lambda>p. if pg_id p = pg_id ping then ping else p) ps
      else ps @ [ping])"

text \<open>
  \<^verbatim>\<open>addPing\<close>. The id of the new ping is built from the clock and
  \<^verbatim>\<open>Math.random()\<close>; it is the argument \<open>newId\<close>. The call reads the clock once.
\<close>

definition addPing ::
  "Constants \<Rightarrow> real \<Rightarrow> string \<Rightarrow> string \<Rightarrow> WorldPos \<Rightarrow> PingType \<Rightarrow> Room
     \<Rightarrow> PingMarker option \<times> Room" where
  "addPing K now newId playerId position pingType s =
     (case players s playerId of
        None \<Rightarrow> (None, s)
      | Some role \<Rightarrow>
          (let lastPing = (case lastPingTime s playerId of None \<Rightarrow> 0 | Some t \<Rightarrow> t) in
           if now - lastPing < PING_COOLDOWN K then (None, s)
           else
             (let playerPingCount = length (filter (\<lambda>p. pg_createdBy p = role) (pings s));
                  kept =
                    (if playerPingCount \<ge> PING_MAX_PER_PLAYER K then
                       (case oldestPing role (pings s) of
                          None \<Rightarrow> pings s
                        | Some oldest \<Rightarrow> deletePing (pg_id oldest) (pings s))
                     else pings s);
                  ping = \<lparr>pg_id = newId, pg_position = position, pg_type = pingType,
                          pg_createdBy = role, pg_createdAt = now,
                          pg_expiresAt = now + PING_LIFETIME K\<rparr> in
              (Some ping,
               s\<lparr>pings := setPing ping kept,
                 lastPingTime := (lastPingTime s)(playerId \<mapsto> now)\<rparr>))))"

definition removePing :: "string \<Rightarrow> string \<Rightarrow> Room \<Rightarrow> bool \<times> Room" where
  "removePing pingId playerId s =
     (case find (\<lambda>p. pg_id p = pingId) (pings s) of
        None \<Rightarrow> (False, s)
      | Some ping \<Rightarrow>
          if players s playerId \<noteq> Some (pg_createdBy ping) then (False, s)
          else (True, s\<lparr>pings := deletePing pingId (pings s)\<rparr>))"

section \<open>Example rooms\<close>

text \<open>Concrete constants, levels and rooms on which the theorems below are exercised.\<close>

definition demoConstants :: Constants where
  "demoConstants =
     \<lparr>DOG_COLLISION_RADIUS = 0.3, PANDA_COLLISION_RADIUS = 0.4,
      DOG_WALK_SPEED = 3, DOG_RUN_SPEED = 5, PANDA_WALK_SPEED = 2, PANDA_RUN_SPEED = 3,
      HAZARD_COLLISION_RADIUS = 0.5, PING_COOLDOWN = 500, PING_MAX_PER_PLAYER = 2,
      PING_LIFETIME = 10000\<rparr>"

definition pos :: "real \<Rightarrow> real \<Rightarrow> WorldPos" where
  "pos a b = \<lparr>px = a, py = b, pz = 0\<rparr>"

definition openLevel :: LevelData where
  "openLevel =
     \<lparr>l_width = 10, l_height = 10, l_tiles = [],
      l_spawn_dog = Some (pos 2 2), l_spawn_panda = Some (pos 3 2), l_puzzles = []\<rparr>"

definition emptyRoom :: Room where
  "emptyRoom =
     \<lparr>levelData = Some openLevel, players = Map.empty, entities = [], interactables = [],
      pings = [], puzzleStates = Map.empty, tick_n = 0, paused = False,
      lastPingTime = Map.empty, pendingRespawns = [], guards = [], distractions = [],
      checkpointPosition = None\<rparr>"

definition mkInteractable ::
  "string \<Rightarrow> WorldPos \<Rightarrow> IState \<Rightarrow> string list \<Rightarrow> InteractableState" where
  "mkInteractable k p st links =
     \<lparr>i_id = k, i_position = p, i_state = st, i_linkedIds = links, i_extra = []\<rparr>"

text \<open>A level without tiles and one closed door at (5, 5).\<close>

definition doorRoom :: Room where
  "doorRoom =
     emptyRoom\<lparr>interactables :=
       [mkInteractable ''door_1'' (pos 5 5) (Door False False False) []]\<rparr>"

text \<open>A locked, closed door linked from a lever and from a timed button.\<close>

definition leverRoom :: Room where
  "leverRoom =
     emptyRoom\<lparr>players := [''p1'' \<mapsto> Dog, ''p2'' \<mapsto> Panda],
       interactables :=
         [mkInteractable ''door_1'' (pos 5 5) (Door False True False) [],
          mkInteractable ''lever_1'' (pos 8 8) (Lever LOff False) [''door_1''],
          mkInteractable ''button_1'' (pos 3 8) (Button False True None (Some 5000)) [''door_1'']]\<rparr>"

text \<open>A 5 by 5 level of ground tiles with water at column 3 of row 1, the panda and one
  crate.\<close>

definition groundTile :: TileData where
  "groundTile = \<lparr>t_type = Ground, t_elevation = 0, t_walkable = True\<rparr>"

definition waterTile :: TileData where
  "waterTile = \<lparr>t_type = Water, t_elevation = 0, t_walkable = True\<rparr>"

definition tiledLevel :: LevelData where
  "tiledLevel =
     \<lparr>l_width = 5, l_height = 5,
      l_tiles =
        [[groundTile, groundTile, groundTile, groundTile, groundTile],
         [groundTile, groundTile, groundTile, waterTile, groundTile],
         [groundTile, groundTile, groundTile, groundTile, groundTile],
         [groundTile, groundTile, groundTile, groundTile, groundTile],
         [groundTile, groundTile, groundTile, groundTile, groundTile]],
      l_spawn_dog = Some (pos 1 1), l_spawn_panda = Some (pos 1 2), l_puzzles = []\<rparr>"

definition mkEntity :: "Role \<Rightarrow> WorldPos \<Rightarrow> EntityState" where
  "mkEntity role p =
     \<lparr>e_id = entityIdOf role, e_type = role, e_position = p,
      e_velocity = \<lparr>vx = 0, vy = 0\<rparr>, e_facing = DirS, e_state = Idle\<rparr>"

definition crateRoom :: "WorldPos \<Rightarrow> Room" where
  "crateRoom pandaPos =
     emptyRoom\<lparr>levelData := Some tiledLevel,
       players := [''p1'' \<mapsto> Dog, ''p2'' \<mapsto> Panda],
       entities := [mkEntity Panda pandaPos],
       interactables := [mkInteractable ''crate_1'' (pos 2 2) (Crate False 2 2) []]\<rparr>"

text \<open>A room in which the dog already holds two pings, the maximum of
  \<open>demoConstants\<close>; the older one was inserted last.\<close>

definition mkPing :: "string \<Rightarrow> Role \<Rightarrow> real \<Rightarrow> PingMarker" where
  "mkPing k role t =
     \<lparr>pg_id = k, pg_position = pos 1 1, pg_type = Look, pg_createdBy = role,
      pg_createdAt = t, pg_expiresAt = t + 10000\<rparr>"

definition pingRoom :: Room where
  "pingRoom =
     emptyRoom\<lparr>players := [''p1'' \<mapsto> Dog, ''p2'' \<mapsto> Panda],
       pings := [mkPing ''a'' Dog 2000, mkPing ''b'' Panda 500, mkPing ''c'' Dog 1000],
       lastPingTime := [''p1'' \<mapsto> 2000]\<rparr>"

text \<open>Two stored objects have the same shape when they agree on everything but the
  contents of the state bag: id, type tag, position and links.\<close>

definition sameShape :: "InteractableState \<Rightarrow> InteractableState \<Rightarrow> bool" where
  "sameShape i j =
     (i_id j = i_id i \<and> i_type j = i_type i \<and> i_position j = i_position i
      \<and> i_linkedIds j = i_linkedIds i)"

text \<open>The weight on a plate as the claim words it: a sum over the entities and the
  crates within the radius.\<close>

definition weightOn :: "Room \<Rightarrow> WorldPos \<Rightarrow> real" where
  "weightOn s platePos =
     (\<Sum>e \<leftarrow> entities s.
        if planarDist (e_position e) platePos < plateRadius
        then (if e_type e = Panda then 2 else 1) else 0)
     + (\<Sum>c \<leftarrow> filter (\<lambda>i. i_type i = TCrate) (interactables s).
        if planarDist (i_position c) platePos < plateRadius then 2 else 0)"

text \<open>What a changed plate does to one object it links to: a hazard is switched to
  the negation of the plate's flag, a door is set by the multi-plate rule.\<close>

definition allPlatesActive :: "Room \<Rightarrow> string \<Rightarrow> bool" where
  "allPlatesActive s doorId = list_all (\<lambda>p. pp_activated (i_state p)) (requiredPlates s doorId)"

definition doorRule :: "Room \<Rightarrow> InteractableState \<Rightarrow> InteractableState" where
  "doorRule s d =
     (if requiredPlates s (i_id d) = [] then d
      else setDoor (\<not> allPlatesActive s (i_id d)) (allPlatesActive s (i_id d)) d)"

definition linkEffect :: "Room \<Rightarrow> bool \<Rightarrow> InteractableState \<Rightarrow> InteractableState" where
  "linkEffect s activated i =
     (if i_type i = THazard then setHazardActive (\<not> activated) i
      else if i_type i = TDoor then doorRule s i
      else i)"

definition newActive :: "Room \<Rightarrow> InteractableState \<Rightarrow> bool" where
  "newActive s p =
     (weightOn s (i_position p) \<ge> requiredWeight (pp_weightThreshold (i_state p)))"

definition updatedPlate :: "Room \<Rightarrow> InteractableState \<Rightarrow> InteractableState" where
  "updatedPlate s p = setPlate (newActive s p) (weightOn s (i_position p)) p"

text \<open>The effect of one iteration of the plate loop, for the plate \<open>p\<close> stored under \<open>k\<close>,
  on a stored object \<open>i\<close>.\<close>

definition plateStepFun ::
  "Room \<Rightarrow> string \<Rightarrow> InteractableState \<Rightarrow> InteractableState \<Rightarrow> InteractableState" where
  "plateStepFun t k p i =
     (let i1 = (if i_id i = k then setPlate (newActive t p) (weightOn t (i_position p)) i else i)
      in if newActive t p \<noteq> pp_activated (i_state p) \<and> i_id i \<in> set (i_linkedIds p)
         then linkEffect
                (modifyInteractable k (setPlate (newActive t p) (weightOn t (i_position p))) t)
                (newActive t p) i1
         else i1)"

text \<open>A door has a changed link among the plates stored under the keys \<open>seen\<close> when one
  of those plates links to the door and its new flag differs from its flag in \<open>s0\<close>.\<close>

definition changedLink :: "Room \<Rightarrow> string set \<Rightarrow> string \<Rightarrow> bool" where
  "changedLink s0 seen doorId =
     (\<exists>k \<in> seen. \<exists>p. getInteractable s0 k = Some p \<and> i_type p = TPressurePlate
        \<and> doorId \<in> set (i_linkedIds p) \<and> newActive s0 p \<noteq> pp_activated (i_state p))"

text \<open>The invariant of the plate loop, started in \<open>s0\<close>, after the keys \<open>seen\<close>.\<close>

definition plateInv :: "Room \<Rightarrow> string set \<Rightarrow> Room \<Rightarrow> bool" where
  "plateInv s0 seen t =
     (list_all2 sameShape (interactables s0) (interactables t)
      \<and> t\<lparr>interactables := interactables s0\<rparr> = s0
      \<and> (\<forall>k p. getInteractable s0 k = Some p \<and> i_type p = TPressurePlate \<longrightarrow>
            getInteractable t k = Some (if k \<in> seen then updatedPlate s0 p else p))
      \<and> (\<forall>k d. getInteractable s0 k = Some d \<and> i_type d = TDoor \<longrightarrow>
            getInteractable t k =
              Some (if changedLink s0 seen k
                    then setDoor (\<not> allPlatesActive t k) (allPlatesActive t k) d
                    else d)))"

text \<open>Scenario B: a light and a heavy plate, both linked to a gate that starts locked and
  closed; the panda stands on the heavy plate, the dog where the argument puts it.\<close>

definition plateRoom :: "WorldPos \<Rightarrow> Room" where
  "plateRoom dogPos =
     emptyRoom\<lparr>players := [''p1'' \<mapsto> Dog, ''p2'' \<mapsto> Panda],
       entities := [mkEntity Dog dogPos, mkEntity Panda (pos 4 2)],
       interactables :=
         [mkInteractable ''plate_light'' (pos 2 2) (PressurePlate False Light 0) [''gate''],
          mkInteractable ''plate_heavy'' (pos 4 2) (PressurePlate False Heavy 0) [''gate''],
          mkInteractable ''gate'' (pos 6 2) (Door False True False) []]\<rparr>"

text \<open>The fields of the room that only the clock-reading and guard phases of a tick and
  the ping and distraction calls change.\<close>

definition stable :: "Room \<Rightarrow> Room" where
  "stable s =
     s\<lparr>entities := [], interactables := [], puzzleStates := Map.empty, tick_n := 0,
       pendingRespawns := []\<rparr>"

text \<open>A step keeps the stored objects with property \<open>P\<close> when every lookup that finds such
  an object before finds the same object after.\<close>

definition keepsObj :: "(InteractableState \<Rightarrow> bool) \<Rightarrow> Room \<Rightarrow> Room \<Rightarrow> bool" where
  "keepsObj P s s' =
     (\<forall>k i. getInteractable s k = Some i \<and> P i \<longrightarrow> getInteractable s' k = Some i)"

definition timedButton :: "InteractableState \<Rightarrow> bool" where
  "timedButton i = (case i_state i of Button pr mo (Some t) td \<Rightarrow> True | _ \<Rightarrow> False)"

subsection \<open>Timed buttons and conveyors\<close>

text \<open>The external driver: one \<^verbatim>\<open>tick()\<close> per clock reading of the list, stopping at a
  tick that throws.\<close>

fun runTicks :: "Constants \<Rightarrow> real list \<Rightarrow> Room \<Rightarrow> Outcome" where
  "runTicks K [] s = Returned s"
| "runTicks K (now # nows) s =
     (case tick K now s of
        Threw s' \<Rightarrow> Threw s'
      | Returned s' \<Rightarrow> runTicks K nows s')"

definition untimedButton :: "InteractableState \<Rightarrow> bool" where
  "untimedButton i = (case i_state i of Button pr mo None td \<Rightarrow> True | _ \<Rightarrow> False)"

text \<open>An object is an active hazard within the hazard collision radius of a position.\<close>

definition activeHazardNear :: "Constants \<Rightarrow> WorldPos \<Rightarrow> InteractableState \<Rightarrow> bool" where
  "activeHazardNear K wp h =
     (case i_state h of
        Hazard active \<Rightarrow> active \<and> planarDist wp (i_position h) < HAZARD_COLLISION_RADIUS K
      | _ \<Rightarrow> False)"

text \<open>The respawn events queued for one entity.\<close>

definition eventsFor :: "string \<Rightarrow> Room \<Rightarrow> RespawnEvent list" where
  "eventsFor eid s = filter (\<lambda>r. r_entityId r = eid) (pendingRespawns s)"

text \<open>What the hazard pass can do to one entity, and what it reads.\<close>

definition hazardView ::
  "string \<Rightarrow> Room \<Rightarrow>
     EntityState option \<times> RespawnEvent list \<times> InteractableState list \<times> LevelData option" where
  "hazardView eid s = (getEntity s eid, eventsFor eid s, interactables s, levelData s)"

text \<open>A dog standing on an active hazard at (5, 5); a second hazard at the place given,
  later in the store.\<close>

definition hazardRoom :: "WorldPos \<Rightarrow> Room" where
  "hazardRoom secondHazard =
     emptyRoom\<lparr>players := [''p1'' \<mapsto> Dog],
       entities := [mkEntity Dog (pos 5 5)],
       interactables :=
         [mkInteractable ''spikes_1'' (pos 5 5) (Hazard True) [],
          mkInteractable ''spikes_2'' secondHazard (Hazard True) []]\<rparr>"

text \<open>
  A run of a room: the calls the outside makes on it, in order. A tick carries the clock
  reading it sees; the firing of the \<^verbatim>\<open>setTimeout\<close> callback of a crate push is an
  event of its own, since real time decides where in the run it falls. The run stops at
  a tick that throws.
\<close>

datatype Event =
    EvTick real
  | EvInput string nat InputState WorldPos
  | EvInteract string string string
  | EvCrateTimeout string

fun runEvents :: "Constants \<Rightarrow> Event list \<Rightarrow> Room \<Rightarrow> Outcome" where
  "runEvents K [] s = Returned s"
| "runEvents K (EvTick now # evs) s =
     (case tick K now s of
        Threw s' \<Rightarrow> Threw s'
      | Returned s' \<Rightarrow> runEvents K evs s')"
| "runEvents K (EvInput playerId tk input position # evs) s =
     runEvents K evs (handleInput K playerId tk input position s)"
| "runEvents K (EvInteract playerId targetId action # evs) s =
     runEvents K evs (snd (handleInteraction playerId targetId action s))"
| "runEvents K (EvCrateTimeout crateId # evs) s =
     runEvents K evs (clearBeingPushed crateId s)"

text \<open>Two events that differ at most in the clock reading of a tick.\<close>

fun sameButClock :: "Event \<Rightarrow> Event \<Rightarrow> bool" where
  "sameButClock (EvTick a) (EvTick b) = True"
| "sameButClock e1 e2 = (e1 = e2)"

definition clockFree :: "Room \<Rightarrow> bool" where
  "clockFree s = (distractions s = [] \<and> pings s = [])"

text \<open>The claim's words for overlap. The collision box is the closed square of half-side
  \<open>radius\<close> about the position; a tile is the unit cell of its column and row; the
  footprint of a door is the open square of half-side 0.6 about the door's position,
  the region that the door test of \<^verbatim>\<open>isPositionWalkable\<close> closes to centres.\<close>

definition boxOverlapsTile :: "real \<Rightarrow> real \<Rightarrow> real \<Rightarrow> nat \<Rightarrow> nat \<Rightarrow> bool" where
  "boxOverlapsTile xx yy radius col row =
     (xx - radius < real col + 1 \<and> real col \<le> xx + radius \<and>
      yy - radius < real row + 1 \<and> real row \<le> yy + radius)"

definition boxOverlapsClosedDoor ::
  "real \<Rightarrow> real \<Rightarrow> real \<Rightarrow> InteractableState \<Rightarrow> bool" where
  "boxOverlapsClosedDoor xx yy radius i =
     (case i_state i of
        Door opn lck hv \<Rightarrow>
          \<not> opn \<and> \<bar>xx - px (i_position i)\<bar> < radius + 0.6
                \<and> \<bar>yy - py (i_position i)\<bar> < radius + 0.6
      | _ \<Rightarrow> False)"

text \<open>A 5 by 5 level with a wall at column 3 of row 1, and a closed door at (1, 3).\<close>

definition wallTile :: TileData where
  "wallTile = \<lparr>t_type = Wall, t_elevation = 0, t_walkable = False\<rparr>"

definition wallLevel :: LevelData where
  "wallLevel =
     \<lparr>l_width = 5, l_height = 5,
      l_tiles =
        [[groundTile, groundTile, groundTile, groundTile, groundTile],
         [groundTile, groundTile, groundTile, wallTile, groundTile],
         [groundTile, groundTile, groundTile, groundTile, groundTile],
         [groundTile, groundTile, groundTile, groundTile, groundTile],
         [groundTile, groundTile, groundTile, groundTile, groundTile]],
      l_spawn_dog = Some (pos 1 1), l_spawn_panda = Some (pos 1 2), l_puzzles = []\<rparr>"

definition wallRoom :: Room where
  "wallRoom =
     emptyRoom\<lparr>levelData := Some wallLevel,
       interactables := [mkInteractable ''door_1'' (pos 1 3) (Door False False False) []]\<rparr>"

text \<open>The room of an unknown level id: no level data, the placeholder door and lever.\<close>

definition placeholderRoom :: Room where
  "placeholderRoom = createPlaceholderLevel (emptyRoom\<lparr>levelData := None\<rparr>)"

text \<open>What a guard is seen with: \<^verbatim>\<open>canGuardSeeEntity\<close> reads nothing else of it.\<close>

definition sameSight :: "GuardState \<Rightarrow> GuardState \<Rightarrow> bool" where
  "sameSight g g' =
     (g_id g' = g_id g \<and> g_position g' = g_position g \<and> g_facing g' = g_facing g
      \<and> g_visionRange g' = g_visionRange g \<and> g_visionAngle g' = g_visionAngle g)"

text \<open>One guard under all the distractions of a tick, in their order.\<close>

definition hearAll :: "DistractionEvent list \<Rightarrow> GuardState \<Rightarrow> GuardState" where
  "hearAll ds g = foldl (\<lambda>g d. distractGuard d g) g ds"

text \<open>The room as the detection loop over the guard ids \<open>ks\<close> finds it when it reaches the
  guard \<open>gid\<close>: the guards before it have had their detection and catch steps.\<close>

fun roomWhenReached :: "Room \<Rightarrow> string list \<Rightarrow> string \<Rightarrow> Room option" where
  "roomWhenReached s [] gid = None"
| "roomWhenReached s (k # ks) gid =
     (if k = gid then Some s else roomWhenReached (guardDetectStep s k) ks gid)"

text \<open>The room in which the detection pass of a tick starts.\<close>

definition beforeDetection :: "Constants \<Rightarrow> real \<Rightarrow> Room \<Rightarrow> Room" where
  "beforeDetection K now s =
     checkHazardCollisions K
       (updateDistractions now (stateOf (updateGuards (tickBeforeGuards s))))"

text \<open>An idle guard without a patrol route at (4, 4), looking along X with a vision cone
  of 60 degrees and a range of 6; in \<open>watchRoom\<close> the dog stands in its view at (5, 4), in
  \<open>noiseRoom\<close> a whistle was blown at (5, 4) at time 0.\<close>

definition demoGuard :: GuardState where
  "demoGuard =
     \<lparr>g_id = ''guard_1'', g_position = pos 4 4, g_facing = 0, g_patrolRoute = [],
      g_patrolIndex = 0, g_patrolDirection = 1, g_alertState = GIdle, g_alertTimer = 0,
      g_lastSeenPlayerPos = None, g_visionAngle = 60, g_visionRange = 6, g_moveSpeed = 2\<rparr>"

definition watchRoom :: Room where
  "watchRoom = emptyRoom\<lparr>entities := [mkEntity Dog (pos 5 4)], guards := [demoGuard]\<rparr>"

definition demoWhistle :: DistractionEvent where
  "demoWhistle =
     \<lparr>ds_position = pos 5 4, ds_type = Whistle, ds_createdAt = 0, ds_duration = 3000\<rparr>"

definition noiseRoom :: Room where
  "noiseRoom = emptyRoom\<lparr>guards := [demoGuard], distractions := [demoWhistle]\<rparr>"

section \<open>Movement validation (C1)\<close>

lemma isPositionWalkable_no_level:
  "levelData s = None \<Longrightarrow> isPositionWalkable s xx yy r"
  by (simp add: isPositionWalkable_def)

lemma validatePosition_cases:
  "validatePosition K s cur tgt role =
     (if isPositionWalkable s (px tgt) (py tgt) (collisionRadius K role) then tgt
      else if isPositionWalkable s (px tgt) (py cur) (collisionRadius K role)
        then \<lparr>px = px tgt, py = py cur, pz = pz tgt\<rparr>
      else if isPositionWalkable s (px cur) (py tgt) (collisionRadius K role)
        then \<lparr>px = px cur, py = py tgt, pz = pz tgt\<rparr>
      else cur)"
proof (cases "levelData s")
  case None
  then show ?thesis
    by (simp add: validatePosition_def isPositionWalkable_no_level)
next
  case (Some lvl)
  then show ?thesis
    by (simp add: validatePosition_def Let_def)
qed

lemma demo_radius: "collisionRadius demoConstants Dog = 0.3"
  by (simp add: collisionRadius_def demoConstants_def)

section \<open>What a returned position is clear of (C1)\<close>

lemma isPositionWalkable_iff:
  assumes "levelData s = Some lvl"
  shows "isPositionWalkable s xx yy r \<longleftrightarrow>
     r \<le> xx \<and> xx < l_width lvl - r \<and> r \<le> yy \<and> yy < l_height lvl - r \<and>
     \<not> cornerBlocked lvl (xx - r) (yy - r) \<and> \<not> cornerBlocked lvl (xx + r) (yy - r) \<and>
     \<not> cornerBlocked lvl (xx - r) (yy + r) \<and> \<not> cornerBlocked lvl (xx + r) (yy + r) \<and>
     (\<forall>d\<in>set (interactables s). \<not> closedDoorAt xx yy d)"
  using assms by (auto simp add: isPositionWalkable_def list_ex_iff)

lemma cornerBlocked_iff:
  "cornerBlocked lvl cx cy \<longleftrightarrow>
     0 \<le> \<lfloor>cy\<rfloor> \<and> \<lfloor>cy\<rfloor> < int (length (l_tiles lvl)) \<and>
     0 \<le> \<lfloor>cx\<rfloor> \<and> \<lfloor>cx\<rfloor> < int (length (l_tiles lvl ! nat \<lfloor>cy\<rfloor>)) \<and>
     \<not> t_walkable (l_tiles lvl ! nat \<lfloor>cy\<rfloor> ! nat \<lfloor>cx\<rfloor>)"
  by (auto simp add: cornerBlocked_def Let_def)

lemma closedDoorAt_iff:
  "closedDoorAt xx yy d \<longleftrightarrow>
     (\<exists>lck hv. i_state d = Door False lck hv) \<and>
     \<bar>xx - px (i_position d)\<bar> < 0.6 \<and> \<bar>yy - py (i_position d)\<bar> < 0.6"
  by (cases "i_state d") (auto simp add: closedDoorAt_def)

text \<open>An interval of length at most one that meets a unit cell has an end in it.\<close>

lemma end_in_cell:
  fixes a r :: real and c :: nat
  assumes "a - r < real c + 1" "real c \<le> a + r" "r \<le> 1 / 2"
  shows "\<lfloor>a - r\<rfloor> = int c \<or> \<lfloor>a + r\<rfloor> = int c"
proof (cases "real c \<le> a - r")
  case True
  with assms(1) have "\<lfloor>a - r\<rfloor> = int c"
    by (simp add: floor_eq_iff)
  then show ?thesis ..
next
  case False
  with assms(3) have "a + r < real c + 1" by linarith
  with assms(2) have "\<lfloor>a + r\<rfloor> = int c"
    by (simp add: floor_eq_iff)
  then show ?thesis ..
qed

lemma overlapped_tile_has_corner:
  assumes o: "boxOverlapsTile xx yy r col row" and r: "r \<le> 1 / 2"
    and row: "row < length (l_tiles lvl)" and col: "col < length (l_tiles lvl ! row)"
    and w: "\<not> t_walkable (l_tiles lvl ! row ! col)"
  shows "cornerBlocked lvl (xx - r) (yy - r) \<or> cornerBlocked lvl (xx + r) (yy - r) \<or>
         cornerBlocked lvl (xx - r) (yy + r) \<or> cornerBlocked lvl (xx + r) (yy + r)"
proof -
  from o r have x: "\<lfloor>xx - r\<rfloor> = int col \<or> \<lfloor>xx + r\<rfloor> = int col"
    unfolding boxOverlapsTile_def by (intro end_in_cell) simp_all
  from o r have y: "\<lfloor>yy - r\<rfloor> = int row \<or> \<lfloor>yy + r\<rfloor> = int row"
    unfolding boxOverlapsTile_def by (intro end_in_cell) simp_all
  have b: "cornerBlocked lvl cx cy" if "\<lfloor>cx\<rfloor> = int col" "\<lfloor>cy\<rfloor> = int row" for cx cy
    using that row col w by (simp add: cornerBlocked_iff)
  from x y b show ?thesis by blast
qed

text \<open>What a walkable position is clear of, with the test unfolded.\<close>

lemma walkable_clear:
  assumes l: "levelData s = Some lvl" and w: "isPositionWalkable s xx yy r"
  shows "r \<le> xx \<and> xx < l_width lvl - r \<and> r \<le> yy \<and> yy < l_height lvl - r"
    and "\<And>cx cy. cx \<in> {xx - r, xx + r} \<Longrightarrow> cy \<in> {yy - r, yy + r} \<Longrightarrow>
           0 \<le> \<lfloor>cy\<rfloor> \<and> \<lfloor>cy\<rfloor> < int (length (l_tiles lvl)) \<and>
           0 \<le> \<lfloor>cx\<rfloor> \<and> \<lfloor>cx\<rfloor> < int (length (l_tiles lvl ! nat \<lfloor>cy\<rfloor>)) \<Longrightarrow>
           t_walkable (l_tiles lvl ! nat \<lfloor>cy\<rfloor> ! nat \<lfloor>cx\<rfloor>)"
    and "\<And>row col. r \<le> 1 / 2 \<Longrightarrow> row < length (l_tiles lvl) \<Longrightarrow>
           col < length (l_tiles lvl ! row) \<Longrightarrow> boxOverlapsTile xx yy r col row \<Longrightarrow>
           t_walkable (l_tiles lvl ! row ! col)"
    and "\<And>d lck hv. d \<in> set (interactables s) \<Longrightarrow> i_state d = Door False lck hv \<Longrightarrow>
           0.6 \<le> \<bar>xx - px (i_position d)\<bar> \<or> 0.6 \<le> \<bar>yy - py (i_position d)\<bar>"
proof -
  note f = w[unfolded isPositionWalkable_iff[OF l]]
  from f show "r \<le> xx \<and> xx < l_width lvl - r \<and> r \<le> yy \<and> yy < l_height lvl - r"
    by simp
  from f have c: "\<not> cornerBlocked lvl (xx - r) (yy - r)" "\<not> cornerBlocked lvl (xx + r) (yy - r)"
     "\<not> cornerBlocked lvl (xx - r) (yy + r)" "\<not> cornerBlocked lvl (xx + r) (yy + r)"
    by simp_all
  show "t_walkable (l_tiles lvl ! nat \<lfloor>cy\<rfloor> ! nat \<lfloor>cx\<rfloor>)"
    if "cx \<in> {xx - r, xx + r}" "cy \<in> {yy - r, yy + r}"
       "0 \<le> \<lfloor>cy\<rfloor> \<and> \<lfloor>cy\<rfloor> < int (length (l_tiles lvl)) \<and>
        0 \<le> \<lfloor>cx\<rfloor> \<and> \<lfloor>cx\<rfloor> < int (length (l_tiles lvl ! nat \<lfloor>cy\<rfloor>))" for cx cy
  proof -
    from that(1,2) c have "\<not> cornerBlocked lvl cx cy" by auto
    with that(3) show ?thesis by (simp add: cornerBlocked_iff)
  qed
  show "t_walkable (l_tiles lvl ! row ! col)"
    if "r \<le> 1 / 2" "row < length (l_tiles lvl)" "col < length (l_tiles lvl ! row)"
       "boxOverlapsTile xx yy r col row" for row col
    using overlapped_tile_has_corner[OF that(4) that(1) that(2) that(3)] c by blast
  show "0.6 \<le> \<bar>xx - px (i_position d)\<bar> \<or> 0.6 \<le> \<bar>yy - py (i_position d)\<bar>"
    if "d \<in> set (interactables s)" "i_state d = Door False lck hv" for d lck hv
  proof -
    from f that(1) have "\<not> closedDoorAt xx yy d" by simp
    with that(2) show ?thesis by (auto simp add: closedDoorAt_iff)
  qed
qed

text \<open>
  Claim C1, as amended. With no level loaded \<^verbatim>\<open>validatePosition\<close> returns the candidate
  untested. With a level loaded it returns the candidate when that is walkable for the
  role's collision radius, otherwise the X-slide (candidate x, current y) when that is
  walkable, otherwise the Y-slide (current x, candidate y) when that is walkable,
  otherwise the current position unchanged. Whenever the returned position differs from
  the current one, or the current one is walkable, the returned position lies within the
  level bounds by the radius, none of the four corners of its collision box lies on a
  non-walkable tile of the grid, for a radius of at most one half the collision box
  overlaps no non-walkable tile of the grid at all, and its centre is at least 0.6 away,
  along X or along Y, from the position of every closed door.
\<close>

theorem validatePosition_clear_of_tiles_and_doors:
  fixes K s cur tgt role
  defines "r \<equiv> collisionRadius K role"
  defines "p \<equiv> validatePosition K s cur tgt role"
  shows
  "(levelData s = None \<longrightarrow> p = tgt) \<and>
   (\<forall>lvl. levelData s = Some lvl \<longrightarrow>
      p = (if isPositionWalkable s (px tgt) (py tgt) r then tgt
           else if isPositionWalkable s (px tgt) (py cur) r
             then \<lparr>px = px tgt, py = py cur, pz = pz tgt\<rparr>
           else if isPositionWalkable s (px cur) (py tgt) r
             then \<lparr>px = px cur, py = py tgt, pz = pz tgt\<rparr>
           else cur) \<and>
      (p \<noteq> cur \<or> isPositionWalkable s (px cur) (py cur) r \<longrightarrow>
         (r \<le> px p \<and> px p < l_width lvl - r \<and> r \<le> py p \<and> py p < l_height lvl - r) \<and>
         (\<forall>cx\<in>{px p - r, px p + r}. \<forall>cy\<in>{py p - r, py p + r}.
            0 \<le> \<lfloor>cy\<rfloor> \<and> \<lfloor>cy\<rfloor> < int (length (l_tiles lvl)) \<and>
            0 \<le> \<lfloor>cx\<rfloor> \<and> \<lfloor>cx\<rfloor> < int (length (l_tiles lvl ! nat \<lfloor>cy\<rfloor>)) \<longrightarrow>
            t_walkable (l_tiles lvl ! nat \<lfloor>cy\<rfloor> ! nat \<lfloor>cx\<rfloor>)) \<and>
         (r \<le> 1 / 2 \<longrightarrow>
            (\<forall>row<length (l_tiles lvl). \<forall>col<length (l_tiles lvl ! row).
               boxOverlapsTile (px p) (py p) r col row \<longrightarrow>
               t_walkable (l_tiles lvl ! row ! col))) \<and>
         (\<forall>d\<in>set (interactables s). \<forall>lck hv. i_state d = Door False lck hv \<longrightarrow>
            0.6 \<le> \<bar>px p - px (i_position d)\<bar> \<or> 0.6 \<le> \<bar>py p - py (i_position d)\<bar>)))"
proof -
  let ?W = "\<lambda>a b. isPositionWalkable s a b r"
  have c: "p = (if ?W (px tgt) (py tgt) then tgt
           else if ?W (px tgt) (py cur) then \<lparr>px = px tgt, py = py cur, pz = pz tgt\<rparr>
           else if ?W (px cur) (py tgt) then \<lparr>px = px cur, py = py tgt, pz = pz tgt\<rparr>
           else cur)"
    unfolding p_def r_def by (rule validatePosition_cases)
  have w: "?W (px p) (py p)" if a: "p \<noteq> cur \<or> ?W (px cur) (py cur)"
  proof (cases "p = cur")
    case True
    with a show ?thesis by simp
  next
    case False
    with c show ?thesis by (auto split: if_splits)
  qed
  show ?thesis
  proof (rule conjI)
    show "levelData s = None \<longrightarrow> p = tgt"
      by (simp add: p_def validatePosition_def)
  next
    show "\<forall>lvl. levelData s = Some lvl \<longrightarrow>
      p = (if ?W (px tgt) (py tgt) then tgt
           else if ?W (px tgt) (py cur) then \<lparr>px = px tgt, py = py cur, pz = pz tgt\<rparr>
           else if ?W (px cur) (py tgt) then \<lparr>px = px cur, py = py tgt, pz = pz tgt\<rparr>
           else cur) \<and>
      (p \<noteq> cur \<or> ?W (px cur) (py cur) \<longrightarrow>
         (r \<le> px p \<and> px p < l_width lvl - r \<and> r \<le> py p \<and> py p < l_height lvl - r) \<and>
         (\<forall>cx\<in>{px p - r, px p + r}. \<forall>cy\<in>{py p - r, py p + r}.
            0 \<le> \<lfloor>cy\<rfloor> \<and> \<lfloor>cy\<rfloor> < int (length (l_tiles lvl)) \<and>
            0 \<le> \<lfloor>cx\<rfloor> \<and> \<lfloor>cx\<rfloor> < int (length (l_tiles lvl ! nat \<lfloor>cy\<rfloor>)) \<longrightarrow>
            t_walkable (l_tiles lvl ! nat \<lfloor>cy\<rfloor> ! nat \<lfloor>cx\<rfloor>)) \<and>
         (r \<le> 1 / 2 \<longrightarrow>
            (\<forall>row<length (l_tiles lvl). \<forall>col<length (l_tiles lvl ! row).
               boxOverlapsTile (px p) (py p) r col row \<longrightarrow>
               t_walkable (l_tiles lvl ! row ! col))) \<and>
         (\<forall>d\<in>set (interactables s). \<forall>lck hv. i_state d = Door False lck hv \<longrightarrow>
            0.6 \<le> \<bar>px p - px (i_position d)\<bar> \<or> 0.6 \<le> \<bar>py p - py (i_position d)\<bar>))"
    proof (rule allI, rule impI, rule conjI [OF c], rule impI)
      fix lvl
      assume l: "levelData s = Some lvl" and a: "p \<noteq> cur \<or> ?W (px cur) (py cur)"
      note k = walkable_clear[OF l w[OF a]]
      have k1: "r \<le> px p \<and> px p < l_width lvl - r \<and> r \<le> py p \<and> py p < l_height lvl - r"
        by (rule k(1))
      have k2: "\<forall>cx\<in>{px p - r, px p + r}. \<forall>cy\<in>{py p - r, py p + r}.
            0 \<le> \<lfloor>cy\<rfloor> \<and> \<lfloor>cy\<rfloor> < int (length (l_tiles lvl)) \<and>
            0 \<le> \<lfloor>cx\<rfloor> \<and> \<lfloor>cx\<rfloor> < int (length (l_tiles lvl ! nat \<lfloor>cy\<rfloor>)) \<longrightarrow>
            t_walkable (l_tiles lvl ! nat \<lfloor>cy\<rfloor> ! nat \<lfloor>cx\<rfloor>)"
        using k(2) by blast
      have k3: "r \<le> 1 / 2 \<longrightarrow>
            (\<forall>row<length (l_tiles lvl). \<forall>col<length (l_tiles lvl ! row).
               boxOverlapsTile (px p) (py p) r col row \<longrightarrow>
               t_walkable (l_tiles lvl ! row ! col))"
        using k(3) by blast
      have k4: "\<forall>d\<in>set (interactables s). \<forall>lck hv. i_state d = Door False lck hv \<longrightarrow>
            0.6 \<le> \<bar>px p - px (i_position d)\<bar> \<or> 0.6 \<le> \<bar>py p - py (i_position d)\<bar>"
        using k(4) by blast
      show "(r \<le> px p \<and> px p < l_width lvl - r \<and> r \<le> py p \<and> py p < l_height lvl - r) \<and>
         (\<forall>cx\<in>{px p - r, px p + r}. \<forall>cy\<in>{py p - r, py p + r}.
            0 \<le> \<lfloor>cy\<rfloor> \<and> \<lfloor>cy\<rfloor> < int (length (l_tiles lvl)) \<and>
            0 \<le> \<lfloor>cx\<rfloor> \<and> \<lfloor>cx\<rfloor> < int (length (l_tiles lvl ! nat \<lfloor>cy\<rfloor>)) \<longrightarrow>
            t_walkable (l_tiles lvl ! nat \<lfloor>cy\<rfloor> ! nat \<lfloor>cx\<rfloor>)) \<and>
         (r \<le> 1 / 2 \<longrightarrow>
            (\<forall>row<length (l_tiles lvl). \<forall>col<length (l_tiles lvl ! row).
               boxOverlapsTile (px p) (py p) r col row \<longrightarrow>
               t_walkable (l_tiles lvl ! row ! col))) \<and>
         (\<forall>d\<in>set (interactables s). \<forall>lck hv. i_state d = Door False lck hv \<longrightarrow>
            0.6 \<le> \<bar>px p - px (i_position d)\<bar> \<or> 0.6 \<le> \<bar>py p - py (i_position d)\<bar>)"
        by (rule conjI [OF k1 conjI [OF k2 conjI [OF k3 k4]]])
    qed
  qed
qed

text \<open>The amended claim at a concrete move: from (2.5, 2.5) the dog asks for (3.25, 1.75),
  where the upper right corner of its box would lie on the wall tile, and is given the
  X-slide (3.25, 2.5), whose box the wall tile does not meet and which is clear of the
  closed door.\<close>

theorem validatePosition_clear_witness:
  "validatePosition demoConstants wallRoom (pos 2.5 2.5) (pos 3.25 1.75) Dog = pos 3.25 2.5
   \<and> \<not> isPositionWalkable wallRoom 3.25 1.75 (collisionRadius demoConstants Dog)
   \<and> \<not> t_walkable (l_tiles wallLevel ! 1 ! 3)
   \<and> \<not> boxOverlapsTile 3.25 2.5 (collisionRadius demoConstants Dog) 3 1
   \<and> t_walkable (l_tiles wallLevel ! 2 ! 3)
   \<and> boxOverlapsTile 3.25 2.5 (collisionRadius demoConstants Dog) 3 2"
proof -
  have l: "levelData wallRoom = Some wallLevel"
    by (simp add: wallRoom_def emptyRoom_def)
  have n: "\<not> isPositionWalkable wallRoom 3.25 1.75 (collisionRadius demoConstants Dog)"
    unfolding demo_radius
    by (simp add: isPositionWalkable_def wallRoom_def emptyRoom_def wallLevel_def wallTile_def
        groundTile_def pos_def mkInteractable_def closedDoorAt_def cornerBlocked_def)
  have v: "validatePosition demoConstants wallRoom (pos 2.5 2.5) (pos 3.25 1.75) Dog = pos 3.25 2.5"
    unfolding validatePosition_def demo_radius
    by (simp add: isPositionWalkable_def wallRoom_def emptyRoom_def wallLevel_def wallTile_def
        groundTile_def pos_def mkInteractable_def closedDoorAt_def cornerBlocked_def)
  have t: "\<not> t_walkable (l_tiles wallLevel ! 1 ! 3)" "t_walkable (l_tiles wallLevel ! 2 ! 3)"
    by (simp_all add: wallLevel_def wallTile_def groundTile_def)
  have o: "boxOverlapsTile 3.25 2.5 (collisionRadius demoConstants Dog) 3 2"
    unfolding demo_radius by (simp add: boxOverlapsTile_def)
  have d: "pos 3.25 2.5 \<noteq> pos 2.5 2.5"
    by (simp add: pos_def)
  have h: "collisionRadius demoConstants Dog \<le> 1 / 2"
    unfolding demo_radius by simp
  have len: "1 < length (l_tiles wallLevel)" "3 < length (l_tiles wallLevel ! 1)"
    by (simp_all add: wallLevel_def)
  note th = validatePosition_clear_of_tiles_and_doors
    [where K = demoConstants and s = wallRoom and cur = "pos 2.5 2.5"
       and tgt = "pos 3.25 1.75" and role = Dog, unfolded v]
  from th l d h
  have "\<forall>row<length (l_tiles wallLevel). \<forall>col<length (l_tiles wallLevel ! row).
          boxOverlapsTile (px (pos 3.25 2.5)) (py (pos 3.25 2.5))
            (collisionRadius demoConstants Dog) col row \<longrightarrow>
          t_walkable (l_tiles wallLevel ! row ! col)"
    by blast
  with len t(1)
  have "\<not> boxOverlapsTile (px (pos 3.25 2.5)) (py (pos 3.25 2.5))
            (collisionRadius demoConstants Dog) 3 1"
    by blast
  then have "\<not> boxOverlapsTile 3.25 2.5 (collisionRadius demoConstants Dog) 3 1"
    by (simp add: pos_def)
  with n v t o show ?thesis by blast
qed

text \<open>
  Claim C1 as stated fails in three ways. A dog standing at (5, 5), inside the footprint
  of a door that has been closed, asks for (5.125, 5.125), is refused the move and both
  slides, and gets back the current position, inside the closed door. In the room of an
  unknown level id no level is loaded, and a move from (8, 5) to (10, 5), the position
  of the closed placeholder door, is returned untested. And the door test reads the
  centre only: from the walkable (4, 5) the dog is given (4.375, 5), where its collision
  box of half-side 0.3 reaches into the footprint of the closed door at (5, 5).
\<close>

theorem validatePosition_counterexample:
  "validatePosition demoConstants doorRoom (pos 5 5) (pos 5.125 5.125) Dog = pos 5 5
   \<and> list_ex (closedDoorAt 5 5) (interactables doorRoom)
   \<and> validatePosition demoConstants placeholderRoom (pos 8 5) (pos 10 5) Dog = pos 10 5
   \<and> list_ex (closedDoorAt 10 5) (interactables placeholderRoom)
   \<and> isPositionWalkable doorRoom 4 5 (collisionRadius demoConstants Dog)
   \<and> validatePosition demoConstants doorRoom (pos 4 5) (pos 4.375 5) Dog = pos 4.375 5
   \<and> list_ex (boxOverlapsClosedDoor 4.375 5 (collisionRadius demoConstants Dog))
        (interactables doorRoom)"
proof -
  have a: "validatePosition demoConstants doorRoom (pos 5 5) (pos 5.125 5.125) Dog = pos 5 5"
    unfolding validatePosition_def demo_radius
    by (simp add: isPositionWalkable_def doorRoom_def emptyRoom_def
      openLevel_def pos_def mkInteractable_def closedDoorAt_def cornerBlocked_def)
  have b: "list_ex (closedDoorAt 5 5) (interactables doorRoom)"
    by (simp add: doorRoom_def emptyRoom_def pos_def mkInteractable_def closedDoorAt_def)
  have c: "validatePosition demoConstants placeholderRoom (pos 8 5) (pos 10 5) Dog = pos 10 5"
    by (simp add: validatePosition_def placeholderRoom_def createPlaceholderLevel_def
        setInteractable_def emptyRoom_def)
  have d: "list_ex (closedDoorAt 10 5) (interactables placeholderRoom)"
    by (simp add: placeholderRoom_def createPlaceholderLevel_def
        setInteractable_def emptyRoom_def closedDoorAt_def)
  have e: "isPositionWalkable doorRoom 4 5 (collisionRadius demoConstants Dog)"
    unfolding demo_radius
    by (simp add: isPositionWalkable_def doorRoom_def emptyRoom_def
      openLevel_def pos_def mkInteractable_def closedDoorAt_def cornerBlocked_def)
  have f: "validatePosition demoConstants doorRoom (pos 4 5) (pos 4.375 5) Dog = pos 4.375 5"
    unfolding validatePosition_def demo_radius
    by (simp add: isPositionWalkable_def doorRoom_def emptyRoom_def
      openLevel_def pos_def mkInteractable_def closedDoorAt_def cornerBlocked_def)
  have g: "list_ex (boxOverlapsClosedDoor 4.375 5 (collisionRadius demoConstants Dog))
        (interactables doorRoom)"
    unfolding demo_radius
    by (simp add: doorRoom_def emptyRoom_def pos_def mkInteractable_def
        boxOverlapsClosedDoor_def)
  from a b c d e f g show ?thesis by blast
qed

section \<open>Link propagation and locked doors (C10)\<close>

text \<open>Lookups after an in-place update, and the effect of link propagation on each
  stored object: it is toggled once per occurrence of its id among the linked ids.\<close>

lemma find_map_modify:
  assumes "\<And>i. i_id (f i) = i_id i"
  shows "find (\<lambda>i. i_id i = j) (map (\<lambda>i. if i_id i = k then f i else i) xs)
         = map_option (\<lambda>i. if i_id i = k then f i else i) (find (\<lambda>i. i_id i = j) xs)"
  using assms by (induction xs) auto

lemma getInteractable_modify:
  assumes "\<And>i. i_id (f i) = i_id i"
  shows "getInteractable (modifyInteractable k f s) j
         = map_option (\<lambda>i. if i_id i = k then f i else i) (getInteractable s j)"
  using find_map_modify[OF assms] by (simp add: getInteractable_def modifyInteractable_def)

lemma getInteractable_id: "getInteractable s j = Some i \<Longrightarrow> i_id i = j"
  by (auto simp: getInteractable_def dest: find_Some_iff[THEN iffD1])

lemma toggleLinked_id [simp]: "i_id (toggleLinked i) = i_id i"
  by (simp add: toggleLinked_def split: IState.splits)

lemma setLever_id [simp]: "i_id (setLever i) = i_id i"
  by (simp add: setLever_def split: IState.splits)

lemma setPressed_id [simp]: "i_id (setPressed p i) = i_id i"
  by (simp add: setPressed_def split: IState.splits)

lemma triggerLinkedStep_get:
  "getInteractable (triggerLinkedStep s k) j
   = map_option (\<lambda>i. if j = k then toggleLinked i else i) (getInteractable s j)"
proof (cases "getInteractable s k")
  case None
  then show ?thesis
    by (cases "j = k") (simp_all add: triggerLinkedStep_def option.map_ident)
next
  case (Some linked)
  have "getInteractable (triggerLinkedStep s k) j
        = map_option (\<lambda>i. if i_id i = k then toggleLinked i else i) (getInteractable s j)"
    using Some by (simp add: triggerLinkedStep_def getInteractable_modify)
  also have "\<dots> = map_option (\<lambda>i. if j = k then toggleLinked i else i) (getInteractable s j)"
    by (cases "getInteractable s j") (auto dest: getInteractable_id)
  finally show ?thesis .
qed

lemma triggerLinked_fold_get:
  "getInteractable (foldl triggerLinkedStep s ks) j
   = map_option (toggleLinked ^^ count_list ks j) (getInteractable s j)"
proof (induction ks arbitrary: s)
  case Nil
  then show ?case by (simp add: option.map_ident)
next
  case (Cons k ks)
  show ?case
    by (cases "getInteractable s j")
       (simp_all add: Cons.IH triggerLinkedStep_get funpow_swap1)
qed

lemma triggerLinkedObjects_get:
  "getInteractable (triggerLinkedObjects s src) j
   = map_option (toggleLinked ^^ count_list (i_linkedIds src) j) (getInteractable s j)"
  by (simp add: triggerLinkedObjects_def triggerLinked_fold_get)

lemma toggleLinked_door_funpow:
  "i_state d = Door opn lck hv \<Longrightarrow>
   (toggleLinked ^^ n) d = d\<lparr>i_state := Door (if odd n then \<not> opn else opn) lck hv\<rparr>"
  by (induction n arbitrary: opn) (auto simp: toggleLinked_def)


lemma handleInteraction_locked_door:
  assumes "players s pid = Some role" "getInteractable s did = Some door"
    "i_state door = Door opn True hv"
  shows "handleInteraction pid did action s = (failure ''Permission denied'', s)"
  using assms by (simp add: handleInteraction_def canInteract_def)

lemma handleInteraction_lever_toggle:
  assumes "players s pid = Some role" "getInteractable s sid = Some src"
    "i_state src = Lever p rs" "\<not> (rs \<and> role = Dog)"
  shows "handleInteraction pid sid ''toggle'' s =
         succeeded (triggerLinkedObjects (modifyInteractable sid setLever s) src) sid"
  using assms getInteractable_id[OF assms(2)]
  by (simp add: handleInteraction_def canInteract_def processInteraction_def Let_def)

lemma handleInteraction_button_press:
  assumes "players s pid = Some role" "getInteractable s sid = Some src"
    "i_state src = Button pr mo tm td"
  shows "handleInteraction pid sid ''press'' s =
         succeeded (triggerLinkedObjects (modifyInteractable sid (setPressed True) s) src) sid"
  using assms getInteractable_id[OF assms(2)]
  by (simp add: handleInteraction_def canInteract_def processInteraction_def Let_def)

lemma door_after_source_change:
  assumes d: "getInteractable s did = Some door" "i_state door = Door opn lck hv"
    and src: "getInteractable s sid = Some src" "\<not> isDoor src"
    and f: "\<And>i. i_id (f i) = i_id i"
  shows "getInteractable (triggerLinkedObjects (modifyInteractable sid f s) src) did
         = Some (door\<lparr>i_state :=
              Door (if odd (count_list (i_linkedIds src) did) then \<not> opn else opn) lck hv\<rparr>)"
proof -
  have ne: "did \<noteq> sid"
    using d src by (auto simp: isDoor_def)
  have "getInteractable (modifyInteractable sid f s) did = Some door"
    using d(1) ne getInteractable_id[OF d(1)] by (simp add: getInteractable_modify[OF f])
  then show ?thesis
    by (simp add: triggerLinkedObjects_get toggleLinked_door_funpow[OF d(2)])
qed

text \<open>
  Claim C10. A door that is locked rejects every direct \<^verbatim>\<open>handleInteraction\<close> with
  "Permission denied" and the room is unchanged. A permitted lever toggle, and a button
  press, flip the \<open>open\<close> flag of a linked door once per occurrence of the door among
  the source's linked ids (once for a door linked once), whatever the door's \<open>locked\<close>
  flag is, and leave \<open>locked\<close> as it was.
\<close>

theorem linked_toggle_ignores_lock:
  assumes "players s pid = Some role"
    and "getInteractable s did = Some door" and "i_state door = Door opn lck hv"
    and "getInteractable s sid = Some src"
  shows "(lck \<longrightarrow> handleInteraction pid did action s = (failure ''Permission denied'', s))
    \<and> ((\<exists>p rs. i_state src = Lever p rs \<and> \<not> (rs \<and> role = Dog)) \<longrightarrow>
         success (fst (handleInteraction pid sid ''toggle'' s)) \<and>
         getInteractable (snd (handleInteraction pid sid ''toggle'' s)) did
           = Some (door\<lparr>i_state :=
               Door (if odd (count_list (i_linkedIds src) did) then \<not> opn else opn) lck hv\<rparr>))
    \<and> ((\<exists>pr mo tm td. i_state src = Button pr mo tm td) \<longrightarrow>
         success (fst (handleInteraction pid sid ''press'' s)) \<and>
         getInteractable (snd (handleInteraction pid sid ''press'' s)) did
           = Some (door\<lparr>i_state :=
               Door (if odd (count_list (i_linkedIds src) did) then \<not> opn else opn) lck hv\<rparr>))"
proof (intro conjI impI)
  assume lck
  then show "handleInteraction pid did action s = (failure ''Permission denied'', s)"
    using assms handleInteraction_locked_door by simp
next
  assume "\<exists>p rs. i_state src = Lever p rs \<and> \<not> (rs \<and> role = Dog)"
  then obtain p rs where l: "i_state src = Lever p rs" "\<not> (rs \<and> role = Dog)" by blast
  have nd: "\<not> isDoor src" using l by (simp add: isDoor_def)
  note h = handleInteraction_lever_toggle[OF assms(1) assms(4) l]
  show "success (fst (handleInteraction pid sid ''toggle'' s))"
    by (simp add: h succeeded_def)
  show "getInteractable (snd (handleInteraction pid sid ''toggle'' s)) did
           = Some (door\<lparr>i_state :=
               Door (if odd (count_list (i_linkedIds src) did) then \<not> opn else opn) lck hv\<rparr>)"
    unfolding h succeeded_def snd_conv
    by (rule door_after_source_change[OF assms(2) assms(3) assms(4) nd]) simp
next
  assume "\<exists>pr mo tm td. i_state src = Button pr mo tm td"
  then obtain pr mo tm td where b: "i_state src = Button pr mo tm td" by blast
  have nd: "\<not> isDoor src" using b by (simp add: isDoor_def)
  note h = handleInteraction_button_press[OF assms(1) assms(4) b]
  show "success (fst (handleInteraction pid sid ''press'' s))"
    by (simp add: h succeeded_def)
  show "getInteractable (snd (handleInteraction pid sid ''press'' s)) did
           = Some (door\<lparr>i_state :=
               Door (if odd (count_list (i_linkedIds src) did) then \<not> opn else opn) lck hv\<rparr>)"
    unfolding h succeeded_def snd_conv
    by (rule door_after_source_change[OF assms(2) assms(3) assms(4) nd]) simp
qed

lemma leverRoom_door: "getInteractable leverRoom ''door_1''
    = Some (mkInteractable ''door_1'' (pos 5 5) (Door False True False) [])"
  by (simp add: getInteractable_def leverRoom_def emptyRoom_def mkInteractable_def)

lemma leverRoom_lever: "getInteractable leverRoom ''lever_1''
    = Some (mkInteractable ''lever_1'' (pos 8 8) (Lever LOff False) [''door_1''])"
  by (simp add: getInteractable_def leverRoom_def emptyRoom_def mkInteractable_def)

text \<open>In the example room the dog cannot toggle the locked door itself, but its lever
  opens it.\<close>

theorem linked_toggle_ignores_lock_witness:
  "handleInteraction ''p1'' ''door_1'' ''toggle'' leverRoom = (failure ''Permission denied'', leverRoom)
   \<and> success (fst (handleInteraction ''p1'' ''lever_1'' ''toggle'' leverRoom))
   \<and> getInteractable (snd (handleInteraction ''p1'' ''lever_1'' ''toggle'' leverRoom)) ''door_1''
      = Some (mkInteractable ''door_1'' (pos 5 5) (Door True True False) [])"
proof -
  have p: "players leverRoom ''p1'' = Some Dog"
    by (simp add: leverRoom_def emptyRoom_def)
  have st: "i_state (mkInteractable ''door_1'' (pos 5 5) (Door False True False) []) = Door False True False"
    by (simp add: mkInteractable_def)
  have l: "\<exists>p rs. i_state (mkInteractable ''lever_1'' (pos 8 8) (Lever LOff False) [''door_1'']) = Lever p rs
      \<and> \<not> (rs \<and> Dog = Dog)"
    by (rule exI[of _ LOff], rule exI[of _ False]) (simp add: mkInteractable_def)
  from linked_toggle_ignores_lock[OF p leverRoom_door st leverRoom_lever, of "''toggle''"] l
  show ?thesis
    by (simp add: mkInteractable_def)
qed

section \<open>Crate pushes (C7)\<close>

lemma pushCrate_id [simp]: "i_id (pushCrate a b i) = i_id i"
  by (simp add: pushCrate_def split: IState.splits)

lemma isValidCratePosition_iff:
  assumes "levelData s = Some lvl"
  shows "isValidCratePosition s tx ty \<longleftrightarrow>
      (1 \<le> tx \<and> tx < l_width lvl - 1 \<and> 1 \<le> ty \<and> ty < l_height lvl - 1)
    \<and> (\<lfloor>ty\<rfloor> < int (length (l_tiles lvl)) \<and> \<lfloor>tx\<rfloor> < int (length (l_tiles lvl ! nat \<lfloor>ty\<rfloor>)) \<longrightarrow>
         t_walkable (l_tiles lvl ! nat \<lfloor>ty\<rfloor> ! nat \<lfloor>tx\<rfloor>)
         \<and> t_type (l_tiles lvl ! nat \<lfloor>ty\<rfloor> ! nat \<lfloor>tx\<rfloor>) \<noteq> Water
         \<and> t_type (l_tiles lvl ! nat \<lfloor>ty\<rfloor> ! nat \<lfloor>tx\<rfloor>) \<noteq> Void)
    \<and> (\<forall>other \<in> set (interactables s). isCrate other \<longrightarrow>
         \<not> (\<bar>px (i_position other) - tx\<bar> < 0.9 \<and> \<bar>py (i_position other) - ty\<bar> < 0.9))"
proof -
  have fl: "1 \<le> tx \<Longrightarrow> 0 \<le> \<lfloor>tx\<rfloor>" "1 \<le> ty \<Longrightarrow> 0 \<le> \<lfloor>ty\<rfloor>" by linarith+
  show ?thesis
    using assms fl
    by (auto simp: isValidCratePosition_def Let_def list_ex_iff not_less not_le)
qed

lemma pushDirection_unit:
  "(fst (pushDirection dx dy) = 1 \<or> fst (pushDirection dx dy) = - 1) \<and> snd (pushDirection dx dy) = 0
   \<or> fst (pushDirection dx dy) = 0 \<and> (snd (pushDirection dx dy) = 1 \<or> snd (pushDirection dx dy) = - 1)"
  by (simp add: pushDirection_def)

lemma handleInteraction_push:
  assumes "players s pid = Some Panda" "getInteractable s cid = Some c"
    "i_state c = Crate bp gx gy" "getEntity s ''panda_entity'' = Some e"
  shows "handleInteraction pid cid ''push'' s =
     (let dx = px (i_position c) - px (e_position e);
          dy = py (i_position c) - py (e_position e);
          tx = px (i_position c) + fst (pushDirection dx dy);
          ty = py (i_position c) + snd (pushDirection dx dy) in
      if isValidCratePosition s tx ty
      then succeeded (modifyInteractable cid (pushCrate tx ty) s) cid
      else (failure ''Cannot push there'', s))"
  using assms getInteractable_id[OF assms(2)]
  by (simp add: handleInteraction_def canInteract_def processInteraction_def Let_def entityIdOf_def)


text \<open>
  Claim C7, as amended. For a push by the panda, the push axis is X only when the
  absolute x offset from pusher to crate strictly exceeds the absolute y offset; with
  equal offsets the push goes along Y. The target is one unit from the crate along that
  axis. The push succeeds exactly when the target is within the level bounds (at least
  one tile from each edge), its tile (when the tile grid has it) is walkable and neither
  water nor void, and no other crate lies within 0.9 of the target on both axes. On
  success the crate is moved to the target with \<open>beingPushed\<close> set and the grid cell
  rounded from the target; on failure the room is unchanged.
\<close>

theorem crate_push_rule:
  fixes s :: Room and c :: InteractableState and e :: EntityState and lvl :: LevelData
  assumes "players s pid = Some Panda" and "getInteractable s cid = Some c"
    and "i_state c = Crate bp gx gy" and "getEntity s ''panda_entity'' = Some e"
    and "levelData s = Some lvl"
  defines "dx \<equiv> px (i_position c) - px (e_position e)"
    and "dy \<equiv> py (i_position c) - py (e_position e)"
  defines "pushX \<equiv> (if \<bar>dx\<bar> > \<bar>dy\<bar> then (if dx > 0 then 1 else - 1) else 0)"
    and "pushY \<equiv> (if \<bar>dx\<bar> > \<bar>dy\<bar> then 0 else (if dy > 0 then 1 else - 1))"
  defines "tx \<equiv> px (i_position c) + pushX" and "ty \<equiv> py (i_position c) + pushY"
  defines "r \<equiv> handleInteraction pid cid ''push'' s"
  shows "(success (fst r) \<longleftrightarrow>
            (1 \<le> tx \<and> tx < l_width lvl - 1 \<and> 1 \<le> ty \<and> ty < l_height lvl - 1)
          \<and> (\<lfloor>ty\<rfloor> < int (length (l_tiles lvl))
               \<and> \<lfloor>tx\<rfloor> < int (length (l_tiles lvl ! nat \<lfloor>ty\<rfloor>)) \<longrightarrow>
              t_walkable (l_tiles lvl ! nat \<lfloor>ty\<rfloor> ! nat \<lfloor>tx\<rfloor>)
              \<and> t_type (l_tiles lvl ! nat \<lfloor>ty\<rfloor> ! nat \<lfloor>tx\<rfloor>) \<noteq> Water
              \<and> t_type (l_tiles lvl ! nat \<lfloor>ty\<rfloor> ! nat \<lfloor>tx\<rfloor>) \<noteq> Void)
          \<and> (\<forall>other \<in> set (interactables s). isCrate other \<and> other \<noteq> c \<longrightarrow>
              \<not> (\<bar>px (i_position other) - tx\<bar> < 0.9 \<and> \<bar>py (i_position other) - ty\<bar> < 0.9)))
     \<and> (success (fst r) \<longrightarrow>
          getInteractable (snd r) cid =
            Some (c\<lparr>i_state := Crate True \<lfloor>tx + 0.5\<rfloor> \<lfloor>ty + 0.5\<rfloor>,
                    i_position := (i_position c)\<lparr>px := tx, py := ty\<rparr>\<rparr>))
     \<and> (\<not> success (fst r) \<longrightarrow> snd r = s)"
proof -
  have pd: "pushDirection dx dy = (pushX, pushY)"
    by (simp add: pushDirection_def pushX_def pushY_def)
  have r: "r = (if isValidCratePosition s tx ty
                then succeeded (modifyInteractable cid (pushCrate tx ty) s) cid
                else (failure ''Cannot push there'', s))"
    unfolding r_def handleInteraction_push[OF assms(1-4)] Let_def
    using pd by (simp add: dx_def dy_def tx_def ty_def)
  have self_far: "\<not> (\<bar>px (i_position c) - tx\<bar> < 0.9 \<and> \<bar>py (i_position c) - ty\<bar> < 0.9)"
    by (simp add: tx_def ty_def pushX_def pushY_def)
  have crates: "(\<forall>other \<in> set (interactables s). isCrate other \<longrightarrow>
         \<not> (\<bar>px (i_position other) - tx\<bar> < 0.9 \<and> \<bar>py (i_position other) - ty\<bar> < 0.9))
     \<longleftrightarrow> (\<forall>other \<in> set (interactables s). isCrate other \<and> other \<noteq> c \<longrightarrow>
         \<not> (\<bar>px (i_position other) - tx\<bar> < 0.9 \<and> \<bar>py (i_position other) - ty\<bar> < 0.9))"
    using self_far by blast
  have succ: "success (fst r) \<longleftrightarrow> isValidCratePosition s tx ty"
    by (simp add: r succeeded_def failure_def)
  have moved: "isValidCratePosition s tx ty \<Longrightarrow> getInteractable (snd r) cid =
            Some (c\<lparr>i_state := Crate True \<lfloor>tx + 0.5\<rfloor> \<lfloor>ty + 0.5\<rfloor>,
                    i_position := (i_position c)\<lparr>px := tx, py := ty\<rparr>\<rparr>)"
    using assms(2,3) getInteractable_id[OF assms(2)]
    by (simp add: r succeeded_def getInteractable_modify) (simp add: pushCrate_def)
  have same: "\<not> isValidCratePosition s tx ty \<Longrightarrow> snd r = s"
    by (simp add: r)
  show ?thesis
    unfolding succ
    using moved same isValidCratePosition_iff[OF assms(5), of tx ty] crates
    by blast
qed

lemma crateRoom_facts:
  "players (crateRoom p) ''p2'' = Some Panda"
  "getInteractable (crateRoom p) ''crate_1'' = Some (mkInteractable ''crate_1'' (pos 2 2) (Crate False 2 2) [])"
  "getEntity (crateRoom p) ''panda_entity'' = Some (mkEntity Panda p)"
  "levelData (crateRoom p) = Some tiledLevel"
  by (simp_all add: crateRoom_def emptyRoom_def getInteractable_def getEntity_def
      mkInteractable_def mkEntity_def entityIdOf_def)

text \<open>
  Claim C7 as stated fails on the tie: the panda at (1, 1) pushes the crate at (2, 2);
  both offsets are 1, the crate goes along Y to (2, 3), although the cell (3, 2) along X
  is a valid crate position as well.
\<close>

theorem crate_push_tie_counterexample:
  "pushDirection (2 - 1) (2 - 1) = (0, 1)
   \<and> map_option i_position
        (getInteractable (snd (handleInteraction ''p2'' ''crate_1'' ''push'' (crateRoom (pos 1 1))))
           ''crate_1'') = Some (pos 2 3)
   \<and> isValidCratePosition (crateRoom (pos 1 1)) 3 2"
proof -
  have v: "isValidCratePosition (crateRoom (pos 1 1)) 3 2"
    by (simp add: isValidCratePosition_def crateRoom_def emptyRoom_def tiledLevel_def
        groundTile_def waterTile_def mkInteractable_def isCrate_def pos_def)
  have v2: "isValidCratePosition (crateRoom (pos 1 1)) 2 3"
    by (simp add: isValidCratePosition_def crateRoom_def emptyRoom_def tiledLevel_def
        groundTile_def waterTile_def mkInteractable_def isCrate_def pos_def)
  have d: "pushDirection (2 - 1) (2 - 1) = (0, 1)"
    by (simp add: pushDirection_def)
  have h: "handleInteraction ''p2'' ''crate_1'' ''push'' (crateRoom (pos 1 1)) =
        succeeded (modifyInteractable ''crate_1'' (pushCrate 2 3) (crateRoom (pos 1 1))) ''crate_1''"
    unfolding handleInteraction_push[OF crateRoom_facts(1,2) _ crateRoom_facts(3), of False 2 2 "pos 1 1",
        simplified mkInteractable_def, simplified]
    using v2 by (simp add: mkInteractable_def mkEntity_def pos_def pushDirection_def)
  show ?thesis
    using d v
    by (simp add: h succeeded_def getInteractable_modify crateRoom_facts(2))
       (simp add: mkInteractable_def pushCrate_def pos_def)
qed

text \<open>The amended claim at concrete pushes: from (1, 2) the crate at (2, 2) moves along X
  to (3, 2).\<close>

theorem crate_push_rule_witness:
  "success (fst (handleInteraction ''p2'' ''crate_1'' ''push'' (crateRoom (pos 1 2))))
   \<and> getInteractable (snd (handleInteraction ''p2'' ''crate_1'' ''push'' (crateRoom (pos 1 2))))
        ''crate_1''
      = Some (mkInteractable ''crate_1'' (pos 3 2) (Crate True 3 2) [])"
proof -
  have st: "i_state (mkInteractable ''crate_1'' (pos 2 2) (Crate False 2 2) []) = Crate False 2 2"
    by (simp add: mkInteractable_def)
  note t = crate_push_rule[OF crateRoom_facts(1,2) st crateRoom_facts(3,4), of "pos 1 2"]
  have ok: "success (fst (handleInteraction ''p2'' ''crate_1'' ''push'' (crateRoom (pos 1 2))))"
    unfolding t[THEN conjunct1]
    by (simp add: mkInteractable_def mkEntity_def pos_def tiledLevel_def groundTile_def
        waterTile_def crateRoom_def emptyRoom_def isCrate_def)
  from t[THEN conjunct2, THEN conjunct1] ok
  show ?thesis
    by (simp add: mkInteractable_def mkEntity_def pos_def)
qed

section \<open>The ping rate limit and eviction (C8)\<close>

lemma olderPing_fold_Some:
  assumes "pg_createdBy a = role"
  shows "\<exists>old. foldl (olderPing role) (Some a) ps = Some old
          \<and> (old = a \<or> old \<in> set ps) \<and> pg_createdBy old = role
          \<and> pg_createdAt old \<le> pg_createdAt a
          \<and> (\<forall>p \<in> set ps. pg_createdBy p = role \<longrightarrow> pg_createdAt old \<le> pg_createdAt p)"
  using assms
proof (induction ps arbitrary: a)
  case Nil
  then show ?case by simp
next
  case (Cons q ps)
  show ?case
  proof (cases "pg_createdBy q = role \<and> pg_createdAt q < pg_createdAt a")
    case True
    then have step: "olderPing role (Some a) q = Some q"
      by (simp add: olderPing_def)
    from Cons.IH[of q] True obtain old where
      "foldl (olderPing role) (Some q) ps = Some old"
      "old = q \<or> old \<in> set ps" "pg_createdBy old = role"
      "pg_createdAt old \<le> pg_createdAt q"
      "\<forall>p \<in> set ps. pg_createdBy p = role \<longrightarrow> pg_createdAt old \<le> pg_createdAt p"
      by blast
    with True step show ?thesis by (intro exI[of _ old]) auto
  next
    case False
    then have step: "olderPing role (Some a) q = Some a"
      by (auto simp: olderPing_def)
    from Cons.IH[of a] Cons.prems obtain old where
      "foldl (olderPing role) (Some a) ps = Some old"
      "old = a \<or> old \<in> set ps" "pg_createdBy old = role"
      "pg_createdAt old \<le> pg_createdAt a"
      "\<forall>p \<in> set ps. pg_createdBy p = role \<longrightarrow> pg_createdAt old \<le> pg_createdAt p"
      by blast
    with False step show ?thesis by (intro exI[of _ old]) auto
  qed
qed

lemma oldestPing_minimal:
  assumes "\<exists>p \<in> set ps. pg_createdBy p = role"
  shows "\<exists>old. oldestPing role ps = Some old \<and> old \<in> set ps \<and> pg_createdBy old = role
          \<and> (\<forall>p \<in> set ps. pg_createdBy p = role \<longrightarrow> pg_createdAt old \<le> pg_createdAt p)"
  using assms
proof (induction ps)
  case Nil
  then show ?case by simp
next
  case (Cons q ps)
  show ?case
  proof (cases "pg_createdBy q = role")
    case True
    have "oldestPing role (q # ps) = foldl (olderPing role) (Some q) ps"
      using True by (simp add: oldestPing_def olderPing_def)
    with olderPing_fold_Some[OF True, of ps] show ?thesis by auto
  next
    case False
    have "oldestPing role (q # ps) = oldestPing role ps"
      using False by (simp add: oldestPing_def olderPing_def)
    with Cons False show ?thesis by auto
  qed
qed

lemma deletePing_remove1:
  "distinct (map pg_id ps) \<Longrightarrow> old \<in> set ps \<Longrightarrow> deletePing (pg_id old) ps = remove1 old ps"
proof (induction ps)
  case Nil
  then show ?case by simp
next
  case (Cons q ps)
  show ?case
  proof (cases "q = old")
    case True
    with Cons.prems have "pg_id old \<notin> pg_id ` set ps" by simp
    then have "\<forall>p \<in> set ps. pg_id p \<noteq> pg_id old" by (metis imageI)
    then have "filter (\<lambda>p. pg_id p \<noteq> pg_id old) ps = ps" by (simp add: filter_id_conv)
    with True show ?thesis by (simp add: deletePing_def)
  next
    case False
    with Cons.prems have "old \<in> set ps" "pg_id q \<noteq> pg_id old" by auto
    with Cons False show ?thesis by (simp add: deletePing_def)
  qed
qed

lemma addPing_Some_D:
  assumes "addPing K t1 id1 pid p1 ty1 s = (Some ping, s1)"
  shows "players s1 pid = players s pid \<and> players s pid \<noteq> None \<and> lastPingTime s1 pid = Some t1"
  using assms
  by (auto simp: addPing_def Let_def split: option.splits if_splits)

lemma addPing_cooldown:
  assumes "players s pid \<noteq> None" "lastPingTime s pid = Some t1" "t2 - t1 < PING_COOLDOWN K"
  shows "addPing K t2 id2 pid p2 ty2 s = (None, s)"
  using assms by (auto simp: addPing_def)


text \<open>
  Claim C8. (a) After a successful \<^verbatim>\<open>addPing\<close> of a player at clock reading \<open>t1\<close>,
  a call of the same player at a reading \<open>t2\<close> with \<open>t2 - t1\<close> below the cooldown returns
  null and leaves the room, so its pings, unchanged. (b) A call that passes the rate limit
  while the player's role already has at least the per-player maximum (a positive number)
  of pings outstanding removes exactly one ping, a ping of that role whose
  \<open>createdAt\<close> is least among the role's pings, then stores the new ping and returns it.
\<close>

theorem addPing_cooldown_and_eviction:
  fixes K :: Constants and s :: Room and now :: real and newId :: string
    and p :: WorldPos and ty :: PingType
  defines "new \<equiv> \<lambda>role. \<lparr>pg_id = newId, pg_position = p, pg_type = ty, pg_createdBy = role,
                          pg_createdAt = now, pg_expiresAt = now + PING_LIFETIME K\<rparr>"
  shows "(\<forall>ping s1. addPing K t1 id1 pid p1 ty1 s = (Some ping, s1) \<and> t2 - t1 < PING_COOLDOWN K
            \<longrightarrow> addPing K t2 id2 pid p2 ty2 s1 = (None, s1))
    \<and> (\<forall>role. players s pid = Some role
          \<and> \<not> (now - (case lastPingTime s pid of None \<Rightarrow> 0 | Some t \<Rightarrow> t) < PING_COOLDOWN K)
          \<and> length (filter (\<lambda>q. pg_createdBy q = role) (pings s)) \<ge> PING_MAX_PER_PLAYER K
          \<and> PING_MAX_PER_PLAYER K > 0
          \<and> distinct (map pg_id (pings s))
          \<longrightarrow> (\<exists>oldest. oldest \<in> set (pings s) \<and> pg_createdBy oldest = role
                 \<and> (\<forall>q \<in> set (pings s). pg_createdBy q = role
                       \<longrightarrow> pg_createdAt oldest \<le> pg_createdAt q)
                 \<and> addPing K now newId pid p ty s =
                     (Some (new role),
                      s\<lparr>pings := setPing (new role) (remove1 oldest (pings s)),
                        lastPingTime := (lastPingTime s)(pid \<mapsto> now)\<rparr>)))"
proof (intro conjI allI impI)
  fix ping s1
  assume a: "addPing K t1 id1 pid p1 ty1 s = (Some ping, s1) \<and> t2 - t1 < PING_COOLDOWN K"
  from addPing_Some_D[OF a[THEN conjunct1]]
  have "players s1 pid \<noteq> None" "lastPingTime s1 pid = Some t1" by auto
  then show "addPing K t2 id2 pid p2 ty2 s1 = (None, s1)"
    using a addPing_cooldown by blast
next
  fix role
  assume h: "players s pid = Some role
          \<and> \<not> (now - (case lastPingTime s pid of None \<Rightarrow> 0 | Some t \<Rightarrow> t) < PING_COOLDOWN K)
          \<and> length (filter (\<lambda>q. pg_createdBy q = role) (pings s)) \<ge> PING_MAX_PER_PLAYER K
          \<and> PING_MAX_PER_PLAYER K > 0
          \<and> distinct (map pg_id (pings s))"
  then have "filter (\<lambda>q. pg_createdBy q = role) (pings s) \<noteq> []" by auto
  then have "\<exists>q \<in> set (pings s). pg_createdBy q = role"
    by (simp add: filter_empty_conv)
  from oldestPing_minimal[OF this] obtain oldest where
    o: "oldestPing role (pings s) = Some oldest" "oldest \<in> set (pings s)"
       "pg_createdBy oldest = role"
       "\<forall>q \<in> set (pings s). pg_createdBy q = role \<longrightarrow> pg_createdAt oldest \<le> pg_createdAt q"
    by blast
  have d: "deletePing (pg_id oldest) (pings s) = remove1 oldest (pings s)"
    using h o(2) by (simp add: deletePing_remove1)
  have "addPing K now newId pid p ty s =
          (Some (new role),
           s\<lparr>pings := setPing (new role) (remove1 oldest (pings s)),
             lastPingTime := (lastPingTime s)(pid \<mapsto> now)\<rparr>)"
    using h o(1) d by (simp add: addPing_def Let_def new_def)
  with o show "\<exists>oldest. oldest \<in> set (pings s) \<and> pg_createdBy oldest = role
                 \<and> (\<forall>q \<in> set (pings s). pg_createdBy q = role
                       \<longrightarrow> pg_createdAt oldest \<le> pg_createdAt q)
                 \<and> addPing K now newId pid p ty s =
                     (Some (new role),
                      s\<lparr>pings := setPing (new role) (remove1 oldest (pings s)),
                        lastPingTime := (lastPingTime s)(pid \<mapsto> now)\<rparr>)"
    by blast
qed

lemma pingRoom_add:
  "addPing demoConstants 3000 ''d'' ''p1'' (pos 4 4) Go pingRoom =
     (Some \<lparr>pg_id = ''d'', pg_position = pos 4 4, pg_type = Go, pg_createdBy = Dog,
            pg_createdAt = 3000, pg_expiresAt = 13000\<rparr>,
      pingRoom\<lparr>pings := [mkPing ''a'' Dog 2000, mkPing ''b'' Panda 500,
                 \<lparr>pg_id = ''d'', pg_position = pos 4 4, pg_type = Go, pg_createdBy = Dog,
                  pg_createdAt = 3000, pg_expiresAt = 13000\<rparr>],
               lastPingTime := [''p1'' \<mapsto> 3000]\<rparr>)"
  by (simp add: addPing_def pingRoom_def emptyRoom_def demoConstants_def Let_def mkPing_def
      oldestPing_def olderPing_def deletePing_def setPing_def pos_def)

text \<open>In the example room the dog's third ping at 3000 evicts its ping of 1000 (the oldest,
  though stored last) and a further ping at 3400 is refused.\<close>

theorem addPing_cooldown_and_eviction_witness:
  "map pg_id (pings (snd (addPing demoConstants 3000 ''d'' ''p1'' (pos 4 4) Go pingRoom)))
     = [''a'', ''b'', ''d'']
   \<and> (\<exists>oldest. oldest \<in> set (pings pingRoom) \<and> pg_createdBy oldest = Dog
        \<and> addPing demoConstants 3000 ''d'' ''p1'' (pos 4 4) Go pingRoom =
            (Some \<lparr>pg_id = ''d'', pg_position = pos 4 4, pg_type = Go, pg_createdBy = Dog,
                   pg_createdAt = 3000, pg_expiresAt = 3000 + PING_LIFETIME demoConstants\<rparr>,
             pingRoom\<lparr>pings := setPing
                 \<lparr>pg_id = ''d'', pg_position = pos 4 4, pg_type = Go, pg_createdBy = Dog,
                  pg_createdAt = 3000, pg_expiresAt = 3000 + PING_LIFETIME demoConstants\<rparr>
                 (remove1 oldest (pings pingRoom)),
               lastPingTime := (lastPingTime pingRoom)(''p1'' \<mapsto> 3000)\<rparr>))
   \<and> 3400 - 3000 < PING_COOLDOWN demoConstants
   \<and> addPing demoConstants 3400 ''e'' ''p1'' (pos 4 4) Go
        (snd (addPing demoConstants 3000 ''d'' ''p1'' (pos 4 4) Go pingRoom))
      = (None, snd (addPing demoConstants 3000 ''d'' ''p1'' (pos 4 4) Go pingRoom))"
proof -
  have c: "(3400::real) - 3000 < PING_COOLDOWN demoConstants"
    by (simp add: demoConstants_def)
  note t = addPing_cooldown_and_eviction[of demoConstants 3000 "''d''" "''p1''" "pos 4 4" Go pingRoom
      3400 "''e''" "pos 4 4" Go 3000 "''d''" "pos 4 4" Go]
  have a: "addPing demoConstants 3400 ''e'' ''p1'' (pos 4 4) Go
        (snd (addPing demoConstants 3000 ''d'' ''p1'' (pos 4 4) Go pingRoom))
      = (None, snd (addPing demoConstants 3000 ''d'' ''p1'' (pos 4 4) Go pingRoom))"
    by (rule t[THEN conjunct1, rule_format, OF conjI, OF _ c]) (simp add: pingRoom_add)
  have h: "players pingRoom ''p1'' = Some Dog
          \<and> \<not> (3000 - (case lastPingTime pingRoom ''p1'' of None \<Rightarrow> 0 | Some t \<Rightarrow> t)
                < PING_COOLDOWN demoConstants)
          \<and> length (filter (\<lambda>q. pg_createdBy q = Dog) (pings pingRoom))
                \<ge> PING_MAX_PER_PLAYER demoConstants
          \<and> PING_MAX_PER_PLAYER demoConstants > 0
          \<and> distinct (map pg_id (pings pingRoom))"
    by (simp add: pingRoom_def emptyRoom_def demoConstants_def mkPing_def)
  from t[THEN conjunct2, rule_format, OF h] obtain oldest where
    "oldest \<in> set (pings pingRoom)" "pg_createdBy oldest = Dog"
    "addPing demoConstants 3000 ''d'' ''p1'' (pos 4 4) Go pingRoom =
            (Some \<lparr>pg_id = ''d'', pg_position = pos 4 4, pg_type = Go, pg_createdBy = Dog,
                   pg_createdAt = 3000, pg_expiresAt = 3000 + PING_LIFETIME demoConstants\<rparr>,
             pingRoom\<lparr>pings := setPing
                 \<lparr>pg_id = ''d'', pg_position = pos 4 4, pg_type = Go, pg_createdBy = Dog,
                  pg_createdAt = 3000, pg_expiresAt = 3000 + PING_LIFETIME demoConstants\<rparr>
                 (remove1 oldest (pings pingRoom)),
               lastPingTime := (lastPingTime pingRoom)(''p1'' \<mapsto> 3000)\<rparr>)"
    by blast
  then have b: "\<exists>oldest. oldest \<in> set (pings pingRoom) \<and> pg_createdBy oldest = Dog
        \<and> addPing demoConstants 3000 ''d'' ''p1'' (pos 4 4) Go pingRoom =
            (Some \<lparr>pg_id = ''d'', pg_position = pos 4 4, pg_type = Go, pg_createdBy = Dog,
                   pg_createdAt = 3000, pg_expiresAt = 3000 + PING_LIFETIME demoConstants\<rparr>,
             pingRoom\<lparr>pings := setPing
                 \<lparr>pg_id = ''d'', pg_position = pos 4 4, pg_type = Go, pg_createdBy = Dog,
                  pg_createdAt = 3000, pg_expiresAt = 3000 + PING_LIFETIME demoConstants\<rparr>
                 (remove1 oldest (pings pingRoom)),
               lastPingTime := (lastPingTime pingRoom)(''p1'' \<mapsto> 3000)\<rparr>)"
    by blast
  have m: "map pg_id (pings (snd (addPing demoConstants 3000 ''d'' ''p1'' (pos 4 4) Go pingRoom)))
     = [''a'', ''b'', ''d'']"
    by (simp add: pingRoom_add mkPing_def)
  from m b c a show ?thesis by blast
qed

section \<open>Plate weights as sums\<close>

lemma sameShape_refl [simp]: "sameShape i i"
  by (simp add: sameShape_def)

lemma sameShape_trans: "sameShape i j \<Longrightarrow> sameShape j k \<Longrightarrow> sameShape i k"
  by (simp add: sameShape_def)

lemma isCrate_type: "isCrate i \<longleftrightarrow> i_type i = TCrate"
  by (simp add: isCrate_def i_type_def split: IState.splits)

lemma isPressurePlate_type: "isPressurePlate i \<longleftrightarrow> i_type i = TPressurePlate"
  by (simp add: isPressurePlate_def i_type_def split: IState.splits)

lemma isDoor_type: "isDoor i \<longleftrightarrow> i_type i = TDoor"
  by (simp add: isDoor_def i_type_def split: IState.splits)

lemma setDoor_shape [simp]: "sameShape i (setDoor l opn i)"
  by (simp add: sameShape_def setDoor_def i_type_def split: IState.splits)

lemma setHazardActive_shape [simp]: "sameShape i (setHazardActive a i)"
  by (simp add: sameShape_def setHazardActive_def i_type_def split: IState.splits)

lemma setPlate_shape [simp]: "sameShape i (setPlate a w i)"
  by (simp add: sameShape_def setPlate_def i_type_def split: IState.splits)

lemma setDoor_id [simp]: "i_id (setDoor l opn i) = i_id i"
  using setDoor_shape[of i l opn] by (simp add: sameShape_def)

lemma setHazardActive_id [simp]: "i_id (setHazardActive a i) = i_id i"
  using setHazardActive_shape[of i a] by (simp add: sameShape_def)

lemma setPlate_id [simp]: "i_id (setPlate a w i) = i_id i"
  using setPlate_shape[of i a w] by (simp add: sameShape_def)

lemma foldl_entity_weight:
  "foldl (addEntityWeight platePos) acc es
   = acc + (\<Sum>e \<leftarrow> es. if planarDist (e_position e) platePos < plateRadius
                          then (if e_type e = Panda then 2 else 1) else 0)"
  by (induction es arbitrary: acc) (auto simp: addEntityWeight_def plateRadius_def)

lemma foldl_crate_weight:
  "foldl (addCrateWeight platePos) acc xs
   = acc + (\<Sum>c \<leftarrow> filter (\<lambda>i. i_type i = TCrate) xs.
              if planarDist (i_position c) platePos < plateRadius then 2 else 0)"
  by (induction xs arbitrary: acc)
     (auto simp: addCrateWeight_def plateRadius_def isCrate_type)

lemma plateTotalWeight_sum: "plateTotalWeight s platePos = weightOn s platePos"
  by (simp add: plateTotalWeight_def weightOn_def foldl_entity_weight foldl_crate_weight)

text \<open>The sum only reads the entities and the shapes of the stored objects.\<close>

lemma crate_sum_shape:
  assumes "list_all2 sameShape xs ys"
  shows "(\<Sum>c \<leftarrow> filter (\<lambda>i. i_type i = TCrate) ys.
              if planarDist (i_position c) platePos < plateRadius then 2 else (0::real))
       = (\<Sum>c \<leftarrow> filter (\<lambda>i. i_type i = TCrate) xs.
              if planarDist (i_position c) platePos < plateRadius then 2 else 0)"
  using assms by (induction rule: list_all2_induct) (auto simp: sameShape_def)

lemma weightOn_shape:
  assumes "list_all2 sameShape (interactables s) (interactables t)" "entities t = entities s"
  shows "weightOn t platePos = weightOn s platePos"
  using assms crate_sum_shape[OF assms(1)] by (simp add: weightOn_def)

lemma shape_ids:
  "list_all2 sameShape xs ys \<Longrightarrow> map i_id ys = map i_id xs"
  by (induction rule: list_all2_induct) (auto simp: sameShape_def)

lemma shape_map:
  assumes "\<And>i. sameShape i (f i)"
  shows "list_all2 sameShape xs (map f xs)"
  using assms by (induction xs) auto

lemma shape_trans_list:
  "list_all2 sameShape xs ys \<Longrightarrow> list_all2 sameShape ys zs \<Longrightarrow> list_all2 sameShape xs zs"
  by (rule list_all2_trans[of sameShape sameShape sameShape]) (auto intro: sameShape_trans)

section \<open>One link of a changed plate\<close>

lemma distinct_ids_unique:
  assumes "distinct (map i_id xs)" "i \<in> set xs" "j \<in> set xs" "i_id i = i_id j"
  shows "i = j"
  using assms by (meson distinct_map inj_on_def)

lemma find_id_Some_iff:
  assumes "distinct (map i_id xs)"
  shows "find (\<lambda>i. i_id i = k) xs = Some i \<longleftrightarrow> i \<in> set xs \<and> i_id i = k"
  using assms by (induction xs) (auto simp: rev_image_eqI)

lemma getInteractable_Some_iff:
  assumes "distinct (interactableIds s)"
  shows "getInteractable s k = Some i \<longleftrightarrow> i \<in> set (interactables s) \<and> i_id i = k"
  using assms find_id_Some_iff by (simp add: getInteractable_def interactableIds_def)

lemma getInteractable_None_iff:
  "getInteractable s k = None \<longleftrightarrow> k \<notin> set (interactableIds s)"
  by (auto simp: getInteractable_def interactableIds_def find_None_iff)

lemma modifyInteractable_cong:
  assumes "\<And>i. i \<in> set (interactables s) \<Longrightarrow> i_id i = k \<Longrightarrow> f i = g i"
  shows "modifyInteractable k f s = modifyInteractable k g s"
  using assms by (simp add: modifyInteractable_def cong: map_cong)

lemma modifyInteractable_absent:
  assumes "getInteractable s k = None"
  shows "modifyInteractable k f s = s"
proof -
  have "\<forall>i \<in> set (interactables s). i_id i \<noteq> k"
    using assms by (auto simp: getInteractable_None_iff interactableIds_def)
  then have "map (\<lambda>i. if i_id i = k then f i else i) (interactables s) = interactables s"
    by (simp add: map_idI)
  then show ?thesis by (simp add: modifyInteractable_def)
qed

lemma checkDoorUnlock_rule:
  "checkDoorUnlock s d = modifyInteractable (i_id d) (\<lambda>i. if requiredPlates s (i_id d) = [] then i
      else setDoor (\<not> allPlatesActive s (i_id d)) (allPlatesActive s (i_id d)) i) s"
proof -
  have "modifyInteractable (i_id d) (\<lambda>i. i) s = s"
    by (simp add: modifyInteractable_def map_idI)
  then show ?thesis
    by (auto simp: checkDoorUnlock_def Let_def allPlatesActive_def)
qed

lemma modifyInteractable_same:
  assumes "\<And>i. i \<in> set (interactables s) \<Longrightarrow> i_id i = k \<Longrightarrow> f i = i"
  shows "modifyInteractable k f s = s"
proof -
  have "map (\<lambda>i. if i_id i = k then f i else i) (interactables s) = interactables s"
    using assms by (intro map_idI) auto
  then show ?thesis by (simp add: modifyInteractable_def)
qed

lemma plateChangeStep_closed:
  assumes "distinct (interactableIds s)"
  shows "plateChangeStep a s l = modifyInteractable l (linkEffect s a) s"
proof (cases "getInteractable s l")
  case None
  then show ?thesis by (simp add: plateChangeStep_def modifyInteractable_absent)
next
  case (Some linked)
  then have mem: "linked \<in> set (interactables s)" and lid: "i_id linked = l"
    using getInteractable_Some_iff[OF assms] by auto
  have uniq: "\<And>i. i \<in> set (interactables s) \<Longrightarrow> i_id i = l \<Longrightarrow> i = linked"
    using distinct_ids_unique[of "interactables s" _ linked] assms mem lid
    by (simp add: interactableIds_def)
  consider (hazard) "i_type linked = THazard" | (door) "i_type linked = TDoor"
    | (other) "i_type linked \<noteq> THazard" "i_type linked \<noteq> TDoor"
    by blast
  then show ?thesis
  proof cases
    case hazard
    then have "plateChangeStep a s l = modifyInteractable l (setHazardActive (\<not> a)) s"
      using Some by (simp add: plateChangeStep_def i_type_def split: IState.splits)
    also have "\<dots> = modifyInteractable l (linkEffect s a) s"
      using hazard uniq by (intro modifyInteractable_cong) (auto simp: linkEffect_def)
    finally show ?thesis .
  next
    case door
    then have "plateChangeStep a s l = checkDoorUnlock s linked"
      using Some by (simp add: plateChangeStep_def i_type_def split: IState.splits)
    also have "\<dots> = modifyInteractable l (linkEffect s a) s"
      unfolding checkDoorUnlock_rule lid
      using door uniq lid
      by (intro modifyInteractable_cong) (auto simp: linkEffect_def doorRule_def)
    finally show ?thesis .
  next
    case other
    then have "plateChangeStep a s l = s"
      using Some by (simp add: plateChangeStep_def i_type_def split: IState.splits)
    moreover have "modifyInteractable l (linkEffect s a) s = s"
      using other uniq by (intro modifyInteractable_same) (auto simp: linkEffect_def)
    ultimately show ?thesis by simp
  qed
qed

section \<open>All links of a changed plate\<close>

lemma filter_map_frame:
  assumes "\<And>i. i \<in> set xs \<Longrightarrow> P (h i) = P i"
  shows "filter P (map h xs) = map h (filter P xs)"
  using assms by (induction xs) auto

lemma requiredPlates_map:
  assumes "interactables t = map h (interactables s)" "\<And>i. sameShape i (h i)"
  shows "requiredPlates t did = map h (requiredPlates s did)"
proof -
  have "\<And>i. (isPressurePlate (h i) \<and> did \<in> set (i_linkedIds (h i)))
            = (isPressurePlate i \<and> did \<in> set (i_linkedIds i))"
    using assms(2) by (simp add: isPressurePlate_type sameShape_def)
  then show ?thesis
    by (simp add: requiredPlates_def assms(1) filter_map_frame)
qed

lemma requiredPlates_plates:
  "p \<in> set (requiredPlates s did) \<Longrightarrow> i_type p = TPressurePlate \<and> p \<in> set (interactables s)
     \<and> did \<in> set (i_linkedIds p)"
  by (simp add: requiredPlates_def isPressurePlate_type)

lemma requiredPlates_frame:
  assumes "interactables t = map h (interactables s)" "\<And>i. sameShape i (h i)"
    "\<And>i. i_type i = TPressurePlate \<Longrightarrow> h i = i"
  shows "requiredPlates t did = requiredPlates s did"
proof -
  have "map h (requiredPlates s did) = requiredPlates s did"
    using assms(3) requiredPlates_plates by (intro map_idI) blast
  then show ?thesis using requiredPlates_map[OF assms(1,2)] by simp
qed

lemma linkEffect_shape [simp]: "sameShape i (linkEffect s a i)"
  by (simp add: linkEffect_def doorRule_def)

lemma linkEffect_id [simp]: "i_id (linkEffect s a i) = i_id i"
  using linkEffect_shape[of i s a] by (simp add: sameShape_def)

lemma linkEffect_type [simp]: "i_type (linkEffect s a i) = i_type i"
  using linkEffect_shape[of i s a] by (simp add: sameShape_def)

lemma linkEffect_plate: "i_type i = TPressurePlate \<Longrightarrow> linkEffect s a i = i"
  by (simp add: linkEffect_def)

lemma setDoor_twice [simp]: "setDoor l opn (setDoor l' opn' i) = setDoor l opn i"
  by (simp add: setDoor_def split: IState.splits)

lemma setHazardActive_twice [simp]:
  "setHazardActive a (setHazardActive b i) = setHazardActive a i"
  by (simp add: setHazardActive_def split: IState.splits)

lemma setDoor_type [simp]: "i_type (setDoor l opn i) = i_type i"
  using setDoor_shape[of i l opn] by (simp add: sameShape_def)

lemma setHazardActive_type [simp]: "i_type (setHazardActive a i) = i_type i"
  using setHazardActive_shape[of i a] by (simp add: sameShape_def)

lemma linkEffect_idem [simp]: "linkEffect s a (linkEffect s a i) = linkEffect s a i"
  by (simp add: linkEffect_def doorRule_def)

lemma linkEffect_frame:
  assumes "interactables t = map h (interactables s)" "\<And>i. sameShape i (h i)"
    "\<And>i. i_type i = TPressurePlate \<Longrightarrow> h i = i"
  shows "linkEffect t a = linkEffect s a"
  using requiredPlates_frame[OF assms]
  by (auto simp: linkEffect_def doorRule_def allPlatesActive_def fun_eq_iff)

lemma interactableIds_modify:
  assumes "\<And>i. i_id (f i) = i_id i"
  shows "interactableIds (modifyInteractable k f s) = interactableIds s"
  using assms by (simp add: interactableIds_def modifyInteractable_def comp_def cong: map_cong)

text \<open>All links of a changed plate taken together.\<close>

lemma handlePressurePlateChange_fold:
  assumes "distinct (interactableIds s)"
  shows "foldl (plateChangeStep a) s ls
         = s\<lparr>interactables :=
               map (\<lambda>i. if i_id i \<in> set ls then linkEffect s a i else i) (interactables s)\<rparr>"
  using assms
proof (induction ls arbitrary: s)
  case Nil
  then show ?case by simp
next
  case (Cons l ls)
  let ?h = "\<lambda>i. if i_id i = l then linkEffect s a i else i"
  let ?s1 = "modifyInteractable l (linkEffect s a) s"
  have s1: "plateChangeStep a s l = ?s1"
    by (rule plateChangeStep_closed[OF Cons.prems])
  have xs1: "interactables ?s1 = map ?h (interactables s)"
    by (simp add: modifyInteractable_def)
  have d1: "distinct (interactableIds ?s1)"
    using Cons.prems by (simp add: interactableIds_modify)
  have le: "linkEffect ?s1 a = linkEffect s a"
    by (rule linkEffect_frame[OF xs1]) (auto simp: linkEffect_plate)
  have "foldl (plateChangeStep a) s (l # ls) = foldl (plateChangeStep a) ?s1 ls"
    by (simp add: s1)
  also have "\<dots> = ?s1\<lparr>interactables :=
               map (\<lambda>i. if i_id i \<in> set ls then linkEffect s a i else i) (interactables ?s1)\<rparr>"
    using Cons.IH[OF d1] le by simp
  also have "\<dots> = s\<lparr>interactables :=
               map (\<lambda>i. if i_id i \<in> set (l # ls) then linkEffect s a i else i) (interactables s)\<rparr>"
    by (simp add: modifyInteractable_def comp_def cong: map_cong)
  finally show ?case .
qed

section \<open>One iteration of the plate loop\<close>

lemma plateStep_not_plate:
  assumes "\<And>p. getInteractable t k = Some p \<Longrightarrow> i_type p \<noteq> TPressurePlate"
  shows "plateStep t k = t"
  using assms
  by (cases "getInteractable t k") (auto simp: plateStep_def i_type_def split: IState.splits)

lemma plateStep_plate:
  assumes d: "distinct (interactableIds t)"
    and p: "getInteractable t k = Some p" "i_type p = TPressurePlate"
  shows "plateStep t k = t\<lparr>interactables := map (plateStepFun t k p) (interactables t)\<rparr>"
proof -
  obtain act th cw where st: "i_state p = PressurePlate act th cw"
    using p(2) by (auto simp: i_type_def split: IState.splits)
  let ?W = "weightOn t (i_position p)"
  let ?A = "newActive t p"
  let ?t1 = "modifyInteractable k (setPlate ?A ?W) t"
  have A: "?A = (?W \<ge> requiredWeight th)"
    by (simp add: newActive_def st)
  have d1: "distinct (interactableIds ?t1)"
    using d by (simp add: interactableIds_modify)
  have step: "plateStep t k =
      (if ?A \<noteq> act then foldl (plateChangeStep ?A) ?t1 (i_linkedIds p) else ?t1)"
    using p(1) st A
    by (simp add: plateStep_def Let_def plateTotalWeight_sum handlePressurePlateChange_def)
  show ?thesis
  proof (cases "?A \<noteq> act")
    case True
    have "plateStep t k = ?t1\<lparr>interactables :=
            map (\<lambda>i. if i_id i \<in> set (i_linkedIds p) then linkEffect ?t1 ?A i else i)
              (interactables ?t1)\<rparr>"
      using True step handlePressurePlateChange_fold[OF d1] by simp
    also have "\<dots> = t\<lparr>interactables := map (plateStepFun t k p) (interactables t)\<rparr>"
      using True st
      by (simp add: modifyInteractable_def comp_def plateStepFun_def Let_def cong: map_cong)
    finally show ?thesis .
  next
    case False
    then have "plateStep t k = ?t1" using step by simp
    also have "\<dots> = t\<lparr>interactables := map (plateStepFun t k p) (interactables t)\<rparr>"
      using False st
      by (simp add: modifyInteractable_def plateStepFun_def Let_def cong: map_cong)
    finally show ?thesis .
  qed
qed

lemma plateStepFun_shape [simp]: "sameShape i (plateStepFun t k p i)"
  by (auto simp: plateStepFun_def Let_def intro: sameShape_trans[OF setPlate_shape linkEffect_shape])

lemma plateStepFun_id [simp]: "i_id (plateStepFun t k p i) = i_id i"
  using plateStepFun_shape[of i t k p] by (simp add: sameShape_def)

lemma find_map_keeps_id:
  assumes "\<And>i. i_id (g i) = i_id i"
  shows "find (\<lambda>i. i_id i = j) (map g xs) = map_option g (find (\<lambda>i. i_id i = j) xs)"
  using assms by (induction xs) auto

lemma getInteractable_map:
  assumes "\<And>i. i_id (g i) = i_id i"
  shows "getInteractable (t\<lparr>interactables := map g (interactables t)\<rparr>) j
         = map_option g (getInteractable t j)"
  using find_map_keeps_id[OF assms] by (simp add: getInteractable_def)

lemma find_shape:
  assumes "list_all2 sameShape xs ys" "find (\<lambda>i. i_id i = k) ys = Some q"
  shows "\<exists>p. find (\<lambda>i. i_id i = k) xs = Some p \<and> sameShape p q"
  using assms by (induction rule: list_all2_induct) (auto simp: sameShape_def split: if_splits)

section \<open>The invariant of the plate loop\<close>

lemma plateInv_init: "plateInv s0 {} s0"
  by (simp add: plateInv_def changedLink_def list_all2_refl)

lemma shape_same_fields:
  assumes "t\<lparr>interactables := interactables s0\<rparr> = s0"
  shows "entities t = entities s0"
proof -
  have "entities (t\<lparr>interactables := interactables s0\<rparr>) = entities s0"
    using assms by simp
  then show ?thesis by simp
qed

lemma plateInv_weight:
  assumes "plateInv s0 seen t"
  shows "weightOn t wp = weightOn s0 wp"
  using assms shape_same_fields
  by (auto simp: plateInv_def intro!: weightOn_shape)

lemma plateInv_distinct:
  assumes "plateInv s0 seen t" "distinct (interactableIds s0)"
  shows "distinct (interactableIds t)"
  using assms shape_ids[of "interactables s0" "interactables t"]
  by (simp add: plateInv_def interactableIds_def)

lemma plateInv_origin:
  assumes "plateInv s0 seen t" "getInteractable t k = Some q"
  shows "\<exists>p. getInteractable s0 k = Some p \<and> sameShape p q"
  using assms find_shape[of "interactables s0" "interactables t" k q]
  by (simp add: plateInv_def getInteractable_def)

lemma setPlate_type [simp]: "i_type (setPlate a w i) = i_type i"
  using setPlate_shape[of i a w] by (simp add: sameShape_def)

lemma plateStepFun_on_plate:
  assumes "i_type q = TPressurePlate"
  shows "plateStepFun t k p q
         = (if i_id q = k then setPlate (newActive t p) (weightOn t (i_position p)) q else q)"
  using assms by (simp add: plateStepFun_def Let_def linkEffect_plate)

lemma plateStepFun_on_door:
  assumes "i_type d = TDoor" "i_id d \<noteq> k"
  shows "plateStepFun t k p d
         = (if newActive t p \<noteq> pp_activated (i_state p) \<and> i_id d \<in> set (i_linkedIds p)
            then doorRule
                   (modifyInteractable k (setPlate (newActive t p) (weightOn t (i_position p))) t) d
            else d)"
  using assms by (simp add: plateStepFun_def Let_def linkEffect_def)

lemma allPlatesActive_map:
  assumes "interactables u = map g (interactables t)" "\<And>i. sameShape i (g i)"
  shows "allPlatesActive u did
         = list_all (\<lambda>p. pp_activated (i_state (g p))) (requiredPlates t did)"
  by (simp add: allPlatesActive_def requiredPlates_map[OF assms] list_all_iff)

section \<open>The invariant is kept\<close>

lemma setPlate_activated:
  "i_type q = TPressurePlate \<Longrightarrow> pp_activated (i_state (setPlate a w q)) = a"
  by (auto simp: setPlate_def i_type_def split: IState.splits)

lemma type_of_shape: "sameShape p q \<Longrightarrow> i_type q = i_type p"
  by (simp add: sameShape_def)

lemma plateInv_step_not_plate:
  assumes inv: "plateInv s0 seen t" and k: "k \<notin> seen"
    and np: "\<And>p. getInteractable t k = Some p \<Longrightarrow> i_type p \<noteq> TPressurePlate"
  shows "plateInv s0 (insert k seen) (plateStep t k)"
proof -
  have no0: "\<And>p. getInteractable s0 k = Some p \<Longrightarrow> i_type p \<noteq> TPressurePlate"
  proof
    fix p assume "getInteractable s0 k = Some p" "i_type p = TPressurePlate"
    with inv k have "getInteractable t k = Some p" by (simp add: plateInv_def)
    with np \<open>i_type p = TPressurePlate\<close> show False by blast
  qed
  have cl: "\<And>did. changedLink s0 (insert k seen) did = changedLink s0 seen did"
    using no0 by (auto simp: changedLink_def)
  have pl: "\<And>k' p. getInteractable s0 k' = Some p \<Longrightarrow> i_type p = TPressurePlate
      \<Longrightarrow> (k' \<in> insert k seen) = (k' \<in> seen)"
    using no0 by auto
  have same: "plateStep t k = t" by (rule plateStep_not_plate[OF np])
  have c3: "\<forall>k' q. getInteractable s0 k' = Some q \<and> i_type q = TPressurePlate \<longrightarrow>
            getInteractable t k' = Some (if k' \<in> insert k seen then updatedPlate s0 q else q)"
  proof (intro allI impI)
    fix k' q assume h: "getInteractable s0 k' = Some q \<and> i_type q = TPressurePlate"
    then have "(k' \<in> insert k seen) = (k' \<in> seen)" using pl by blast
    moreover have "getInteractable t k' = Some (if k' \<in> seen then updatedPlate s0 q else q)"
      using inv h by (simp add: plateInv_def)
    ultimately show "getInteractable t k' =
        Some (if k' \<in> insert k seen then updatedPlate s0 q else q)" by simp
  qed
  have c4: "\<forall>did d. getInteractable s0 did = Some d \<and> i_type d = TDoor \<longrightarrow>
            getInteractable t did =
              Some (if changedLink s0 (insert k seen) did
                    then setDoor (\<not> allPlatesActive t did) (allPlatesActive t did) d
                    else d)"
    unfolding cl using inv by (simp add: plateInv_def)
  show ?thesis
    unfolding same plateInv_def using inv c3 c4 by (simp add: plateInv_def)
qed

lemma plateInv_step_plate:
  assumes d0: "distinct (interactableIds s0)" and inv: "plateInv s0 seen t" and k: "k \<notin> seen"
    and p: "getInteractable t k = Some p" "i_type p = TPressurePlate"
  shows "plateInv s0 (insert k seen) (plateStep t k)"
proof -
  let ?G = "plateStepFun t k p"
  let ?A = "newActive t p"
  let ?W = "weightOn t (i_position p)"
  let ?g1 = "\<lambda>i. if i_id i = k then setPlate ?A ?W i else i"
  let ?t1 = "modifyInteractable k (setPlate ?A ?W) t"
  let ?u = "t\<lparr>interactables := map ?G (interactables t)\<rparr>"
  have dt: "distinct (interactableIds t)" by (rule plateInv_distinct[OF inv d0])
  have u: "plateStep t k = ?u" by (rule plateStep_plate[OF dt p])
  have p0: "getInteractable s0 k = Some p"
  proof -
    from plateInv_origin[OF inv p(1)] obtain q where
      q: "getInteractable s0 k = Some q" "sameShape q p" by blast
    then have "i_type q = TPressurePlate" using p(2) by (simp add: sameShape_def)
    with inv q(1) k have "getInteractable t k = Some q" by (simp add: plateInv_def)
    with p(1) q(1) show ?thesis by simp
  qed
  have W: "?W = weightOn s0 (i_position p)" by (rule plateInv_weight[OF inv])
  have A: "?A = newActive s0 p" by (simp add: newActive_def W)
  have pmem: "p \<in> set (interactables t)" and pid: "i_id p = k"
    using p(1) getInteractable_Some_iff[OF dt] by auto
  have uniq: "\<And>y. y \<in> set (interactables t) \<Longrightarrow> i_id y = k \<Longrightarrow> y = p"
    using distinct_ids_unique[of "interactables t" _ p] dt pmem pid
    by (simp add: interactableIds_def)
  have get_u: "\<And>j. getInteractable ?u j = map_option ?G (getInteractable t j)"
    by (rule getInteractable_map) simp
  have xs1: "interactables ?t1 = map ?g1 (interactables t)"
    by (simp add: modifyInteractable_def)
  have shape_g1: "\<And>i. sameShape i (?g1 i)" by simp
  have act_u: "\<And>did. allPlatesActive ?u did
      = list_all (\<lambda>y. pp_activated (i_state (?g1 y))) (requiredPlates t did)"
  proof -
    fix did
    have "allPlatesActive ?u did
        = list_all (\<lambda>y. pp_activated (i_state (?G y))) (requiredPlates t did)"
      by (rule allPlatesActive_map) simp_all
    also have "\<dots> = list_all (\<lambda>y. pp_activated (i_state (?g1 y))) (requiredPlates t did)"
      using requiredPlates_plates[of _ t did]
      by (intro list.pred_cong) (auto simp: plateStepFun_on_plate)
    finally show "allPlatesActive ?u did
      = list_all (\<lambda>y. pp_activated (i_state (?g1 y))) (requiredPlates t did)" .
  qed
  have act_t1: "\<And>did. allPlatesActive ?t1 did
      = list_all (\<lambda>y. pp_activated (i_state (?g1 y))) (requiredPlates t did)"
    by (rule allPlatesActive_map[OF xs1 shape_g1])
  have c1: "list_all2 sameShape (interactables s0) (interactables ?u)"
  proof -
    have "list_all2 sameShape (interactables t) (map ?G (interactables t))"
      by (rule shape_map) simp
    with inv show ?thesis
      by (auto simp: plateInv_def intro: shape_trans_list)
  qed
  have c2: "?u\<lparr>interactables := interactables s0\<rparr> = s0"
    using inv by (simp add: plateInv_def)
  have c3: "\<forall>k' q. getInteractable s0 k' = Some q \<and> i_type q = TPressurePlate \<longrightarrow>
            getInteractable ?u k' = Some (if k' \<in> insert k seen then updatedPlate s0 q else q)"
  proof (intro allI impI)
    fix k' q assume h: "getInteractable s0 k' = Some q \<and> i_type q = TPressurePlate"
    let ?q = "if k' \<in> seen then updatedPlate s0 q else q"
    have gt: "getInteractable t k' = Some ?q" using inv h by (simp add: plateInv_def)
    have ty: "i_type ?q = TPressurePlate" using h by (simp add: updatedPlate_def)
    have qid: "i_id ?q = k'" by (rule getInteractable_id[OF gt])
    have "getInteractable ?u k' = Some (?G ?q)" by (simp add: get_u gt)
    also have "?G ?q = (if k' = k then setPlate ?A ?W ?q else ?q)"
      using plateStepFun_on_plate[OF ty] qid by simp
    also have "\<dots> = (if k' \<in> insert k seen then updatedPlate s0 q else q)"
    proof (cases "k' = k")
      case True
      then have "q = p" using h p0 by simp
      then show ?thesis using True k by (simp add: updatedPlate_def A W)
    next
      case False
      then show ?thesis by simp
    qed
    finally show "getInteractable ?u k' = Some (if k' \<in> insert k seen then updatedPlate s0 q else q)" .
  qed
  have c4: "\<forall>did d. getInteractable s0 did = Some d \<and> i_type d = TDoor \<longrightarrow>
            getInteractable ?u did =
              Some (if changedLink s0 (insert k seen) did
                    then setDoor (\<not> allPlatesActive ?u did) (allPlatesActive ?u did) d
                    else d)"
  proof (intro allI impI)
    fix did d assume h: "getInteractable s0 did = Some d \<and> i_type d = TDoor"
    let ?dq = "if changedLink s0 seen did
               then setDoor (\<not> allPlatesActive t did) (allPlatesActive t did) d else d"
    have gt: "getInteractable t did = Some ?dq" using inv h by (simp add: plateInv_def)
    have ty: "i_type ?dq = TDoor" using h by simp
    have did: "i_id ?dq = did" by (rule getInteractable_id[OF gt])
    have ne: "did \<noteq> k" using gt p ty by auto
    have gu: "getInteractable ?u did = Some (?G ?dq)" by (simp add: get_u gt)
    show "getInteractable ?u did =
              Some (if changedLink s0 (insert k seen) did
                    then setDoor (\<not> allPlatesActive ?u did) (allPlatesActive ?u did) d
                    else d)"
    proof (cases "?A \<noteq> pp_activated (i_state p) \<and> did \<in> set (i_linkedIds p)")
      case True
      have "p \<in> set (requiredPlates t did)"
        using True pmem p(2) by (simp add: requiredPlates_def isPressurePlate_type)
      then have "requiredPlates ?t1 did \<noteq> []"
        using requiredPlates_map[OF xs1 shape_g1, of did] by auto
      then have "doorRule ?t1 ?dq
          = setDoor (\<not> allPlatesActive ?t1 did) (allPlatesActive ?t1 did) ?dq"
        using did by (simp add: doorRule_def)
      also have "\<dots> = setDoor (\<not> allPlatesActive ?u did) (allPlatesActive ?u did) d"
        by (simp add: act_u act_t1)
      finally have "?G ?dq = setDoor (\<not> allPlatesActive ?u did) (allPlatesActive ?u did) d"
        using True plateStepFun_on_door[OF ty, of k t p] did ne by simp
      moreover have "changedLink s0 (insert k seen) did"
        using True p0 p(2) A by (auto simp: changedLink_def)
      ultimately show ?thesis using gu by simp
    next
      case False
      have G: "?G ?dq = ?dq"
        using False plateStepFun_on_door[OF ty, of k t p] did ne by auto
      have cl: "changedLink s0 (insert k seen) did = changedLink s0 seen did"
        using False p0 A by (auto simp: changedLink_def)
      have "\<And>y. y \<in> set (requiredPlates t did) \<Longrightarrow>
          pp_activated (i_state (?g1 y)) = pp_activated (i_state y)"
      proof -
        fix y assume y: "y \<in> set (requiredPlates t did)"
        show "pp_activated (i_state (?g1 y)) = pp_activated (i_state y)"
        proof (cases "i_id y = k")
          case True
          then have "y = p" using uniq y requiredPlates_plates[OF y] by blast
          then have "did \<in> set (i_linkedIds p)" using requiredPlates_plates[OF y] by simp
          with False have "?A = pp_activated (i_state p)" by blast
          then show ?thesis using True \<open>y = p\<close> p(2) by (simp add: setPlate_activated)
        next
          case False
          then show ?thesis by simp
        qed
      qed
      then have "list_all (\<lambda>y. pp_activated (i_state (?g1 y))) (requiredPlates t did)
          = list_all (\<lambda>y. pp_activated (i_state y)) (requiredPlates t did)"
        by (intro list.pred_cong) auto
      then have "allPlatesActive ?u did = allPlatesActive t did"
        using act_u[of did] by (simp add: allPlatesActive_def)
      then show ?thesis using gu G cl by simp
    qed
  qed
  show ?thesis
    unfolding u plateInv_def using c1 c2 c3 c4 by blast
qed

lemma plateInv_step:
  assumes "distinct (interactableIds s0)" "plateInv s0 seen t" "k \<notin> seen"
  shows "plateInv s0 (insert k seen) (plateStep t k)"
proof (cases "\<exists>p. getInteractable t k = Some p \<and> i_type p = TPressurePlate")
  case True
  then show ?thesis using plateInv_step_plate[OF assms] by blast
next
  case False
  then show ?thesis using plateInv_step_not_plate[OF assms(2,3)] by blast
qed

lemma plateInv_fold:
  assumes "distinct (interactableIds s0)"
  shows "plateInv s0 seen t \<Longrightarrow> distinct ks \<Longrightarrow> set ks \<inter> seen = {}
         \<Longrightarrow> plateInv s0 (seen \<union> set ks) (foldl plateStep t ks)"
proof (induction ks arbitrary: seen t)
  case Nil
  then show ?case by simp
next
  case (Cons k ks)
  have "plateInv s0 (insert k seen) (plateStep t k)"
    using plateInv_step[OF assms Cons.prems(1)] Cons.prems(3) by simp
  from Cons.IH[OF this] Cons.prems(2,3)
  show ?case by simp
qed

lemma updatePressurePlates_inv:
  assumes "distinct (interactableIds s)"
  shows "plateInv s (set (interactableIds s)) (updatePressurePlates s)"
  using plateInv_fold[OF assms plateInv_init assms] by (simp add: updatePressurePlates_def)

section \<open>The multi-plate door rule (C3)\<close>

lemma sqrt_less_iff_sq:
  fixes a r :: real
  assumes "0 < r"
  shows "sqrt a < r \<longleftrightarrow> a < r * r"
proof -
  have "sqrt a < r \<longleftrightarrow> sqrt a < sqrt (r * r)" using assms by simp
  also have "\<dots> \<longleftrightarrow> a < r * r" by (rule real_sqrt_less_iff)
  finally show ?thesis .
qed

lemma planarDist_less:
  assumes "0 < r"
  shows "planarDist a b < r
         \<longleftrightarrow> (px a - px b) * (px a - px b) + (py a - py b) * (py a - py b) < r * r"
  using sqrt_less_iff_sq[OF assms] by (simp add: planarDist_def Let_def)

text \<open>
  Claim C3. In the plate pass of a tick (the keys of the store being distinct), a door
  linked from a pressure plate whose \<open>activated\<close> flag changes in the pass ends the pass
  with \<open>open\<close> true and \<open>locked\<close> false if every pressure plate linking to it is
  activated at the end of the pass, and with \<open>open\<close> false and \<open>locked\<close> true otherwise.
\<close>

theorem plate_change_sets_linked_door:
  assumes "distinct (interactableIds s)"
    and "getInteractable s doorId = Some d" and "i_state d = Door opn lck hv"
    and "getInteractable s k = Some p" and "isPressurePlate p"
    and "doorId \<in> set (i_linkedIds p)"
    and "getInteractable (updatePressurePlates s) k = Some p'"
    and "pp_activated (i_state p') \<noteq> pp_activated (i_state p)"
  shows "getInteractable (updatePressurePlates s) doorId =
     Some (d\<lparr>i_state :=
        Door (\<forall>q \<in> set (interactables (updatePressurePlates s)).
                isPressurePlate q \<and> doorId \<in> set (i_linkedIds q) \<longrightarrow> pp_activated (i_state q))
             (\<not> (\<forall>q \<in> set (interactables (updatePressurePlates s)).
                isPressurePlate q \<and> doorId \<in> set (i_linkedIds q) \<longrightarrow> pp_activated (i_state q)))
             hv\<rparr>)"
proof -
  let ?s' = "updatePressurePlates s"
  note inv = updatePressurePlates_inv[OF assms(1)]
  have pt: "i_type p = TPressurePlate" using assms(5) by (simp add: isPressurePlate_type)
  have dt: "i_type d = TDoor" using assms(3) by (simp add: i_type_def)
  have kin: "k \<in> set (interactableIds s)"
    using assms(4) getInteractable_None_iff[of s k] by auto
  have "getInteractable ?s' k = Some (updatedPlate s p)"
    using inv assms(4) pt kin by (simp add: plateInv_def)
  then have "p' = updatedPlate s p" using assms(7) by simp
  then have "newActive s p \<noteq> pp_activated (i_state p)"
    using assms(8) pt by (simp add: updatedPlate_def setPlate_activated)
  then have "changedLink s (set (interactableIds s)) doorId"
    using assms(4,6) pt kin by (auto simp: changedLink_def)
  then have "getInteractable ?s' doorId =
      Some (setDoor (\<not> allPlatesActive ?s' doorId) (allPlatesActive ?s' doorId) d)"
    using inv assms(2) dt by (simp add: plateInv_def)
  moreover have "allPlatesActive ?s' doorId
      = (\<forall>q \<in> set (interactables ?s').
                isPressurePlate q \<and> doorId \<in> set (i_linkedIds q) \<longrightarrow> pp_activated (i_state q))"
    by (auto simp: allPlatesActive_def requiredPlates_def list_all_iff)
  ultimately show ?thesis
    using assms(3) by (simp add: setDoor_def)
qed


lemma planarDist_plate:
  "planarDist a b < plateRadius
   \<longleftrightarrow> (px a - px b) * (px a - px b) + (py a - py b) * (py a - py b) < 0.64"
  using planarDist_less[of plateRadius a b] by (simp add: plateRadius_def)

lemmas plate_eval =
  updatePressurePlates_def interactableIds_def plateStep_def getInteractable_def
  plateTotalWeight_def addEntityWeight_def addCrateWeight_def planarDist_plate
  requiredWeight_def modifyInteractable_def setPlate_def handlePressurePlateChange_def
  plateChangeStep_def checkDoorUnlock_def requiredPlates_def setDoor_def setHazardActive_def
  isCrate_def isPressurePlate_def emptyRoom_def mkInteractable_def mkEntity_def pos_def
  entityIdOf_def Let_def

lemma plateRoom_both:
  "interactables (updatePressurePlates (plateRoom (pos 2 2))) =
     [mkInteractable ''plate_light'' (pos 2 2) (PressurePlate True Light 1) [''gate''],
      mkInteractable ''plate_heavy'' (pos 4 2) (PressurePlate True Heavy 2) [''gate''],
      mkInteractable ''gate'' (pos 6 2) (Door True False False) []]"
  by (simp add: plateRoom_def plate_eval)

lemma plateRoom_heavy_only:
  "interactables (updatePressurePlates (plateRoom (pos 8 8))) =
     [mkInteractable ''plate_light'' (pos 2 2) (PressurePlate False Light 0) [''gate''],
      mkInteractable ''plate_heavy'' (pos 4 2) (PressurePlate True Heavy 2) [''gate''],
      mkInteractable ''gate'' (pos 6 2) (Door False True False) []]"
  by (simp add: plateRoom_def plate_eval)

lemma plateRoom_lookups:
  "distinct (interactableIds (plateRoom dp))"
  "getInteractable (plateRoom dp) ''gate'' = Some (mkInteractable ''gate'' (pos 6 2) (Door False True False) [])"
  "getInteractable (plateRoom dp) ''plate_heavy''
     = Some (mkInteractable ''plate_heavy'' (pos 4 2) (PressurePlate False Heavy 0) [''gate''])"
  by (simp_all add: plateRoom_def emptyRoom_def interactableIds_def getInteractable_def
      mkInteractable_def)

text \<open>Scenario B: with only the heavy plate pressed the gate ends the pass closed and
  locked; with both plates pressed it ends open and unlocked.\<close>

theorem plate_change_sets_linked_door_witness:
  "map_option i_state (getInteractable (updatePressurePlates (plateRoom (pos 8 8))) ''gate'')
     = Some (Door False True False)
   \<and> map_option i_state (getInteractable (updatePressurePlates (plateRoom (pos 2 2))) ''gate'')
     = Some (Door True False False)"
proof -
  have st: "i_state (mkInteractable ''gate'' (pos 6 2) (Door False True False) []) = Door False True False"
    by (simp add: mkInteractable_def)
  have pl: "isPressurePlate (mkInteractable ''plate_heavy'' (pos 4 2) (PressurePlate False Heavy 0) [''gate''])"
    "''gate'' \<in> set (i_linkedIds (mkInteractable ''plate_heavy'' (pos 4 2) (PressurePlate False Heavy 0) [''gate'']))"
    by (simp_all add: isPressurePlate_def mkInteractable_def)
  have h1: "getInteractable (updatePressurePlates (plateRoom (pos 8 8))) ''plate_heavy''
      = Some (mkInteractable ''plate_heavy'' (pos 4 2) (PressurePlate True Heavy 2) [''gate''])"
    by (simp add: getInteractable_def plateRoom_heavy_only mkInteractable_def)
  have h2: "getInteractable (updatePressurePlates (plateRoom (pos 2 2))) ''plate_heavy''
      = Some (mkInteractable ''plate_heavy'' (pos 4 2) (PressurePlate True Heavy 2) [''gate''])"
    by (simp add: getInteractable_def plateRoom_both mkInteractable_def)
  have ch: "pp_activated (i_state (mkInteractable ''plate_heavy'' (pos 4 2) (PressurePlate True Heavy 2) [''gate'']))
      \<noteq> pp_activated (i_state (mkInteractable ''plate_heavy'' (pos 4 2) (PressurePlate False Heavy 0) [''gate'']))"
    by (simp add: mkInteractable_def)
  note a = plate_change_sets_linked_door[OF plateRoom_lookups(1,2) st plateRoom_lookups(3) pl h1 ch]
  note b = plate_change_sets_linked_door[OF plateRoom_lookups(1,2) st plateRoom_lookups(3) pl h2 ch]
  have "map_option i_state (getInteractable (updatePressurePlates (plateRoom (pos 8 8))) ''gate'')
     = Some (Door False True False)"
    unfolding a by (simp add: plateRoom_heavy_only mkInteractable_def isPressurePlate_def)
  moreover have "map_option i_state (getInteractable (updatePressurePlates (plateRoom (pos 2 2))) ''gate'')
     = Some (Door True False False)"
    unfolding b by (simp add: plateRoom_both mkInteractable_def isPressurePlate_def)
  ultimately show ?thesis by blast
qed

section \<open>Frames: what a phase leaves alone\<close>

lemma stable_fields:
  assumes "stable s' = stable s"
  shows "levelData s' = levelData s" "players s' = players s" "pings s' = pings s"
    "paused s' = paused s" "lastPingTime s' = lastPingTime s" "guards s' = guards s"
    "distractions s' = distractions s" "checkpointPosition s' = checkpointPosition s"
proof -
  have "levelData (stable s') = levelData (stable s)" "players (stable s') = players (stable s)"
    "pings (stable s') = pings (stable s)" "paused (stable s') = paused (stable s)"
    "lastPingTime (stable s') = lastPingTime (stable s)" "guards (stable s') = guards (stable s)"
    "distractions (stable s') = distractions (stable s)"
    "checkpointPosition (stable s') = checkpointPosition (stable s)"
    using assms by simp_all
  then show "levelData s' = levelData s" "players s' = players s" "pings s' = pings s"
    "paused s' = paused s" "lastPingTime s' = lastPingTime s" "guards s' = guards s"
    "distractions s' = distractions s" "checkpointPosition s' = checkpointPosition s"
    by (simp_all add: stable_def)
qed

lemma stable_foldl:
  assumes "\<And>t k. stable (step t k) = stable t"
  shows "stable (foldl step s ks) = stable s"
  using assms by (induction ks arbitrary: s) simp_all

lemma stable_modify [simp]: "stable (modifyInteractable k f s) = stable s"
  by (simp add: stable_def modifyInteractable_def)

lemma keepsObj_refl [simp]: "keepsObj P s s"
  by (simp add: keepsObj_def)

lemma keepsObj_trans: "keepsObj P s t \<Longrightarrow> keepsObj P t u \<Longrightarrow> keepsObj P s u"
  by (simp add: keepsObj_def)

lemma keepsObj_foldl:
  assumes "\<And>t k. keepsObj P t (step t k)"
  shows "keepsObj P s (foldl step s ks)"
proof (induction ks arbitrary: s)
  case Nil
  show ?case by simp
next
  case (Cons k ks)
  show ?case
    using keepsObj_trans[OF assms[of s k] Cons[of "step s k"]] by simp
qed

lemma keepsObj_same_store:
  "interactables s' = interactables s \<Longrightarrow> keepsObj P s s'"
  by (simp add: keepsObj_def getInteractable_def)

lemma keepsObj_modify:
  assumes "\<And>i. i_id (f i) = i_id i" "\<And>i. P i \<Longrightarrow> f i = i"
  shows "keepsObj P s (modifyInteractable k f s)"
  using assms by (auto simp: keepsObj_def getInteractable_modify)

lemma keepsObj_modify_at:
  assumes "\<And>i. i_id (f i) = i_id i" "getInteractable s k = Some x" "\<not> P x"
  shows "keepsObj P s (modifyInteractable k f s)"
  unfolding keepsObj_def
proof (intro allI impI)
  fix j i assume h: "getInteractable s j = Some i \<and> P i"
  then have "j \<noteq> k" using assms(2,3) by auto
  moreover have "i_id i = j" using h getInteractable_id by blast
  ultimately show "getInteractable (modifyInteractable k f s) j = Some i"
    using h by (simp add: getInteractable_modify[OF assms(1)])
qed

lemma keepsObj_map:
  assumes "\<And>i. i_id (f i) = i_id i" "\<And>i. P i \<Longrightarrow> f i = i"
    "interactables s' = map f (interactables s)"
  shows "keepsObj P s s'"
  using assms find_map_keeps_id[of f, OF assms(1)]
  by (auto simp: keepsObj_def getInteractable_def)

section \<open>Frames of the plate, winch and platform passes\<close>

lemma setWinch_id [simp]: "i_id (setWinch e opr i) = i_id i"
  by (simp add: setWinch_def split: IState.splits)

lemma snapPlatform_id [simp]: "i_id (snapPlatform i) = i_id i"
  by (simp add: snapPlatform_def Let_def split: IState.splits option.splits)

lemma updatePlatform_id [simp]: "i_id (updatePlatform i) = i_id i"
  by (simp add: updatePlatform_def Let_def split: IState.splits option.splits)

lemma setButton_id [simp]: "i_id (setButton p t i) = i_id i"
  by (simp add: setButton_def split: IState.splits)

lemma conveyCrate_id [simp]: "i_id (conveyCrate cp dir sp w l i) = i_id i"
  by (simp add: conveyCrate_def)

lemma setWinch_other: "i_type i \<noteq> TWinch \<Longrightarrow> setWinch e opr i = i"
  by (simp add: setWinch_def i_type_def split: IState.splits)

lemma snapPlatform_other: "i_type i \<noteq> TPlatform \<Longrightarrow> snapPlatform i = i"
  by (simp add: snapPlatform_def i_type_def split: IState.splits)

lemma updatePlatform_other: "i_type i \<noteq> TPlatform \<Longrightarrow> updatePlatform i = i"
  by (simp add: updatePlatform_def i_type_def split: IState.splits)

lemma toggleLinked_other:
  "i_type i \<noteq> TDoor \<Longrightarrow> i_type i \<noteq> TPlatform \<Longrightarrow> toggleLinked i = i"
  by (simp add: toggleLinked_def i_type_def split: IState.splits)

lemma conveyCrate_other: "i_type i \<noteq> TCrate \<Longrightarrow> conveyCrate cp dir sp w l i = i"
  by (simp add: conveyCrate_def isCrate_type)

lemma setDoor_other: "i_type i \<noteq> TDoor \<Longrightarrow> setDoor l opn i = i"
  by (simp add: setDoor_def i_type_def split: IState.splits)

lemma setHazardActive_other: "i_type i \<noteq> THazard \<Longrightarrow> setHazardActive a i = i"
  by (simp add: setHazardActive_def i_type_def split: IState.splits)

lemma setPlate_other: "i_type i \<noteq> TPressurePlate \<Longrightarrow> setPlate a w i = i"
  by (simp add: setPlate_def i_type_def split: IState.splits)

subsection \<open>The plate pass\<close>

lemma checkDoorUnlock_keeps:
  assumes "\<And>i. P i \<Longrightarrow> i_type i \<noteq> TDoor"
  shows "keepsObj P s (checkDoorUnlock s d)"
  unfolding checkDoorUnlock_rule
  by (rule keepsObj_modify) (auto simp: setDoor_other assms)

lemma plateChangeStep_keeps:
  assumes "\<And>i. P i \<Longrightarrow> i_type i \<noteq> TDoor \<and> i_type i \<noteq> THazard"
  shows "keepsObj P s (plateChangeStep a s l)"
proof (cases "getInteractable s l")
  case None
  then show ?thesis by (simp add: plateChangeStep_def)
next
  case (Some linked)
  have h: "keepsObj P s (modifyInteractable l (setHazardActive (\<not> a)) s)"
    by (rule keepsObj_modify) (auto simp: setHazardActive_other assms)
  have d: "keepsObj P s (checkDoorUnlock s linked)"
    by (rule checkDoorUnlock_keeps) (simp add: assms)
  show ?thesis
    using Some h d by (simp add: plateChangeStep_def split: IState.splits)
qed

lemma plateStep_keeps:
  assumes "\<And>i. P i \<Longrightarrow> i_type i \<noteq> TPressurePlate \<and> i_type i \<noteq> TDoor \<and> i_type i \<noteq> THazard"
  shows "keepsObj P s (plateStep s k)"
proof (cases "getInteractable s k")
  case None
  then show ?thesis by (simp add: plateStep_def)
next
  case (Some p)
  have m: "\<And>a w. keepsObj P s (modifyInteractable k (setPlate a w) s)"
    by (rule keepsObj_modify) (auto simp: setPlate_other assms)
  have f: "\<And>a t ls. keepsObj P t (foldl (plateChangeStep a) t ls)"
    by (rule keepsObj_foldl) (rule plateChangeStep_keeps, simp add: assms)
  show ?thesis
    using Some m keepsObj_trans[OF m f]
    by (simp add: plateStep_def Let_def handlePressurePlateChange_def split: IState.splits)
qed

lemma updatePressurePlates_keeps:
  assumes "\<And>i. P i \<Longrightarrow> i_type i \<noteq> TPressurePlate \<and> i_type i \<noteq> TDoor \<and> i_type i \<noteq> THazard"
  shows "keepsObj P s (updatePressurePlates s)"
  unfolding updatePressurePlates_def
  by (rule keepsObj_foldl) (rule plateStep_keeps, simp add: assms)

lemma checkDoorUnlock_stable [simp]: "stable (checkDoorUnlock s d) = stable s"
  by (simp add: checkDoorUnlock_rule)

lemma plateChangeStep_stable [simp]: "stable (plateChangeStep a s l) = stable s"
  by (simp add: plateChangeStep_def split: option.splits IState.splits)

lemma plateStep_stable [simp]: "stable (plateStep s k) = stable s"
  by (simp add: plateStep_def Let_def handlePressurePlateChange_def stable_foldl
      split: option.splits IState.splits)

lemma updatePressurePlates_stable [simp]: "stable (updatePressurePlates s) = stable s"
  by (simp add: updatePressurePlates_def stable_foldl)

subsection \<open>Winches and platforms\<close>

lemma triggerWinchPlatforms_keeps:
  assumes "\<And>i. P i \<Longrightarrow> i_type i \<noteq> TPlatform"
  shows "keepsObj P s (triggerWinchPlatforms s w)"
  unfolding triggerWinchPlatforms_def
proof (rule keepsObj_foldl)
  fix t k
  have "keepsObj P t (modifyInteractable k snapPlatform t)"
    by (rule keepsObj_modify) (auto simp: snapPlatform_other assms)
  then show "keepsObj P t (triggerWinchStep t k)"
    by (simp add: triggerWinchStep_def split: option.splits)
qed

lemma winchStep_keeps:
  assumes "\<And>i. P i \<Longrightarrow> i_type i \<noteq> TWinch \<and> i_type i \<noteq> TPlatform"
  shows "keepsObj P s (winchStep s k)"
proof (cases "getInteractable s k")
  case None
  then show ?thesis by (simp add: winchStep_def)
next
  case (Some w)
  have m: "\<And>e opr. keepsObj P s (modifyInteractable k (setWinch e opr) s)"
    by (rule keepsObj_modify) (auto simp: setWinch_other assms)
  have f: "\<And>t. keepsObj P t (triggerWinchPlatforms t w)"
    by (rule triggerWinchPlatforms_keeps) (simp add: assms)
  show ?thesis
    using Some m keepsObj_trans[OF m f]
    by (simp add: winchStep_def Let_def split: IState.splits)
qed

lemma updateWinches_keeps:
  assumes "\<And>i. P i \<Longrightarrow> i_type i \<noteq> TWinch \<and> i_type i \<noteq> TPlatform"
  shows "keepsObj P s (updateWinches s)"
  unfolding updateWinches_def
  by (rule keepsObj_foldl) (rule winchStep_keeps, simp add: assms)

lemma triggerWinchStep_stable [simp]: "stable (triggerWinchStep s k) = stable s"
  by (simp add: triggerWinchStep_def split: option.splits)

lemma winchStep_stable [simp]: "stable (winchStep s k) = stable s"
  by (simp add: winchStep_def Let_def triggerWinchPlatforms_def stable_foldl
      split: option.splits IState.splits)

lemma updateWinches_stable [simp]: "stable (updateWinches s) = stable s"
  by (simp add: updateWinches_def stable_foldl)

lemma updatePlatforms_keeps:
  assumes "\<And>i. P i \<Longrightarrow> i_type i \<noteq> TPlatform"
  shows "keepsObj P s (updatePlatforms s)"
  by (rule keepsObj_map[where f=updatePlatform])
     (auto simp: updatePlatform_other assms updatePlatforms_def)

lemma updatePlatforms_stable [simp]: "stable (updatePlatforms s) = stable s"
  by (simp add: updatePlatforms_def stable_def)

section \<open>Frames of the other phases\<close>

lemma triggerLinkedObjects_keeps:
  assumes "\<And>i. P i \<Longrightarrow> i_type i \<noteq> TDoor \<and> i_type i \<noteq> TPlatform"
  shows "keepsObj P s (triggerLinkedObjects s src)"
  unfolding triggerLinkedObjects_def
proof (rule keepsObj_foldl)
  fix t k
  have "keepsObj P t (modifyInteractable k toggleLinked t)"
    by (rule keepsObj_modify) (auto simp: toggleLinked_other assms)
  then show "keepsObj P t (triggerLinkedStep t k)"
    by (simp add: triggerLinkedStep_def split: option.splits)
qed

lemma timedButtonStep_keeps:
  assumes "\<And>i. P i \<Longrightarrow> i_type i \<noteq> TDoor \<and> i_type i \<noteq> TPlatform \<and> \<not> timedButton i"
  shows "keepsObj P s (timedButtonStep s k)"
proof (cases "getInteractable s k")
  case None
  then show ?thesis by (simp add: timedButtonStep_def)
next
  case (Some b)
  show ?thesis
  proof (cases "timedButton b")
    case False
    then have "timedButtonStep s k = s"
      using Some by (simp add: timedButtonStep_def timedButton_def split: IState.splits option.splits)
    then show ?thesis by simp
  next
    case True
    then have np: "\<not> P b" using assms by blast
    have m: "\<And>p t. keepsObj P s (modifyInteractable k (setButton p t) s)"
      by (rule keepsObj_modify_at[where x=b]) (simp_all add: Some np)
    have f: "\<And>t. keepsObj P t (triggerLinkedObjects t b)"
      by (rule triggerLinkedObjects_keeps) (simp add: assms)
    show ?thesis
      using Some m keepsObj_trans[OF m f]
      by (simp add: timedButtonStep_def Let_def split: IState.splits option.splits)
  qed
qed

lemma updateTimedButtons_keeps:
  assumes "\<And>i. P i \<Longrightarrow> i_type i \<noteq> TDoor \<and> i_type i \<noteq> TPlatform \<and> \<not> timedButton i"
  shows "keepsObj P s (updateTimedButtons s)"
  unfolding updateTimedButtons_def
  by (rule keepsObj_foldl) (rule timedButtonStep_keeps, simp add: assms)

lemma triggerLinkedStep_stable [simp]: "stable (triggerLinkedStep s k) = stable s"
  by (simp add: triggerLinkedStep_def split: option.splits)

lemma triggerLinkedObjects_stable [simp]: "stable (triggerLinkedObjects s src) = stable s"
  by (simp add: triggerLinkedObjects_def stable_foldl)

lemma timedButtonStep_stable [simp]: "stable (timedButtonStep s k) = stable s"
  by (simp add: timedButtonStep_def Let_def split: option.splits IState.splits)

lemma updateTimedButtons_stable [simp]: "stable (updateTimedButtons s) = stable s"
  by (simp add: updateTimedButtons_def stable_foldl)

lemma conveyorStep_keeps:
  assumes "\<And>i. P i \<Longrightarrow> i_type i \<noteq> TCrate"
  shows "keepsObj P s (conveyorStep s k)"
proof -
  have "\<And>cp dir sp w l. keepsObj P s
      (s\<lparr>entities := map (conveyEntity cp dir sp w l) (entities s),
         interactables := map (conveyCrate cp dir sp w l) (interactables s)\<rparr>)"
    by (rule keepsObj_map[where f="conveyCrate _ _ _ _ _"])
       (auto simp: conveyCrate_other assms)
  then show ?thesis
    by (simp add: conveyorStep_def Let_def split: option.splits IState.splits)
qed

lemma updateConveyors_keeps:
  assumes "\<And>i. P i \<Longrightarrow> i_type i \<noteq> TCrate"
  shows "keepsObj P s (updateConveyors s)"
  unfolding updateConveyors_def
  by (rule keepsObj_foldl) (rule conveyorStep_keeps, simp add: assms)

lemma conveyorStep_stable [simp]: "stable (conveyorStep s k) = stable s"
  by (simp add: conveyorStep_def Let_def stable_def split: option.splits IState.splits)

lemma updateConveyors_stable [simp]: "stable (updateConveyors s) = stable s"
  by (simp add: updateConveyors_def stable_foldl)

subsection \<open>The phases that leave the store alone\<close>

lemma foldl_interactables:
  assumes "\<And>t k. interactables (step t k) = interactables t"
  shows "interactables (foldl step s ks) = interactables s"
  using assms by (induction ks arbitrary: s) simp_all

lemma updateGuards_interactables [simp]:
  "interactables (stateOf (updateGuards s)) = interactables s"
  by (simp add: updateGuards_def stateOf_def)

lemma updateDistractions_interactables [simp]:
  "interactables (updateDistractions now s) = interactables s"
  by (simp add: updateDistractions_def Let_def)

lemma respawnEntity_interactables [simp]:
  "interactables (respawnEntity s e) = interactables s"
  by (simp add: respawnEntity_def Let_def modifyEntity_def)

lemma hazardStep_interactables [simp]:
  "interactables (hazardStep K eid s h) = interactables s"
  by (simp add: hazardStep_def split: IState.splits option.splits)

lemma checkHazardCollisions_interactables [simp]:
  "interactables (checkHazardCollisions K s) = interactables s"
  by (simp add: checkHazardCollisions_def hazardEntityStep_def foldl_interactables)

lemma catchStep_interactables [simp]:
  "interactables (catchStep gid s eid) = interactables s"
  by (simp add: catchStep_def modifyGuard_def respawnPlayersAtCheckpoint_def
      split: option.splits)

lemma guardDetectStep_interactables [simp]:
  "interactables (guardDetectStep s gid) = interactables s"
  by (simp add: guardDetectStep_def Let_def modifyGuard_def foldl_interactables
      split: option.splits)

lemma checkGuardDetection_interactables [simp]:
  "interactables (checkGuardDetection s) = interactables s"
  by (simp add: checkGuardDetection_def foldl_interactables)

lemma expirePings_interactables [simp]:
  "interactables (expirePings now s) = interactables s"
  by (simp add: expirePings_def)

subsection \<open>Puzzles\<close>

lemma puzzleStep_keeps:
  assumes "\<And>i. P i \<Longrightarrow> i_type i \<noteq> TDoor"
  shows "keepsObj P s (puzzleStep s pc)"
proof -
  have a: "\<And>ps. keepsObj P s (s\<lparr>puzzleStates := ps\<rparr>)"
    by (rule keepsObj_same_store) simp
  have b: "\<And>t k. keepsObj P t (modifyInteractable k (setDoor False True) t)"
    by (rule keepsObj_modify) (auto simp: setDoor_other assms)
  show ?thesis
    using a keepsObj_trans[OF a b]
    by (simp add: puzzleStep_def Let_def split: option.splits)
qed

lemma checkPuzzleCompletion_keeps:
  assumes "\<And>i. P i \<Longrightarrow> i_type i \<noteq> TDoor"
  shows "keepsObj P s (checkPuzzleCompletion s)"
proof (cases "levelData s")
  case None
  then show ?thesis by (simp add: checkPuzzleCompletion_def)
next
  case (Some lvl)
  have "keepsObj P s (foldl puzzleStep s (l_puzzles lvl))"
    by (rule keepsObj_foldl) (rule puzzleStep_keeps, simp add: assms)
  then show ?thesis using Some by (simp add: checkPuzzleCompletion_def)
qed

lemma puzzleStep_stable [simp]: "stable (puzzleStep s pc) = stable s"
proof -
  have "\<And>ps. stable (s\<lparr>puzzleStates := ps\<rparr>) = stable s" by (simp add: stable_def)
  then show ?thesis
    by (simp add: puzzleStep_def Let_def split: option.splits)
qed

lemma checkPuzzleCompletion_stable [simp]: "stable (checkPuzzleCompletion s) = stable s"
  by (simp add: checkPuzzleCompletion_def stable_foldl split: option.splits)

lemma respawnEntity_stable [simp]: "stable (respawnEntity s e) = stable s"
  by (simp add: respawnEntity_def Let_def modifyEntity_def stable_def)

lemma hazardStep_stable [simp]: "stable (hazardStep K eid s h) = stable s"
  by (simp add: hazardStep_def split: IState.splits option.splits)

lemma checkHazardCollisions_stable [simp]: "stable (checkHazardCollisions K s) = stable s"
  by (simp add: checkHazardCollisions_def hazardEntityStep_def stable_foldl)

lemma tickBeforeGuards_stable [simp]: "stable (tickBeforeGuards s) = stable s"
proof -
  have "stable (s\<lparr>tick_n := tick_n s + 1\<rparr>) = stable s" by (simp add: stable_def)
  then show ?thesis by (simp add: tickBeforeGuards_def)
qed

section \<open>Frames of a whole tick\<close>

lemma stateOf_tick:
  "stateOf (tick K now s) =
     (if paused s then s
      else if snd (updateGuardList (guards (tickBeforeGuards s)))
      then tickAfterGuards K now (stateOf (updateGuards (tickBeforeGuards s)))
      else stateOf (updateGuards (tickBeforeGuards s)))"
  by (simp add: tick_def updateGuards_def stateOf_def)

lemma tickAfterGuards_keeps:
  assumes "\<And>i. P i \<Longrightarrow> i_type i \<noteq> TDoor"
  shows "keepsObj P s (tickAfterGuards K now s)"
proof -
  let ?a = "checkGuardDetection (checkHazardCollisions K (updateDistractions now s))"
  have 1: "keepsObj P s ?a"
    by (rule keepsObj_same_store) simp
  have 2: "keepsObj P ?a (checkPuzzleCompletion ?a)"
    by (rule checkPuzzleCompletion_keeps) (simp add: assms)
  have 3: "keepsObj P (checkPuzzleCompletion ?a) (expirePings now (checkPuzzleCompletion ?a))"
    by (rule keepsObj_same_store) simp
  show ?thesis
    unfolding tickAfterGuards_def
    by (rule keepsObj_trans[OF keepsObj_trans[OF 1 2] 3])
qed

text \<open>Everything in a tick after the plate pass.\<close>

lemma tick_after_plates_keeps:
  assumes "\<And>i. P i \<Longrightarrow> i_type i \<noteq> TWinch \<and> i_type i \<noteq> TPlatform \<and> i_type i \<noteq> TDoor
              \<and> i_type i \<noteq> TCrate \<and> \<not> timedButton i"
    and "\<not> paused s"
  shows "keepsObj P (updatePressurePlates (s\<lparr>tick_n := tick_n s + 1\<rparr>)) (stateOf (tick K now s))"
proof -
  let ?s1 = "updatePressurePlates (s\<lparr>tick_n := tick_n s + 1\<rparr>)"
  let ?s2 = "updateWinches ?s1"
  let ?s3 = "updatePlatforms ?s2"
  let ?s4 = "updateTimedButtons ?s3"
  let ?s5 = "updateConveyors ?s4"
  let ?s6 = "stateOf (updateGuards ?s5)"
  have k2: "keepsObj P ?s1 ?s2" by (rule updateWinches_keeps) (simp add: assms)
  have k3: "keepsObj P ?s2 ?s3" by (rule updatePlatforms_keeps) (simp add: assms)
  have k4: "keepsObj P ?s3 ?s4" by (rule updateTimedButtons_keeps) (simp add: assms)
  have k5: "keepsObj P ?s4 ?s5" by (rule updateConveyors_keeps) (simp add: assms)
  have k6: "keepsObj P ?s5 ?s6" by (rule keepsObj_same_store) simp
  have k7: "keepsObj P ?s6 (tickAfterGuards K now ?s6)"
    by (rule tickAfterGuards_keeps) (simp add: assms)
  have k15: "keepsObj P ?s1 ?s5"
    by (rule keepsObj_trans[OF keepsObj_trans[OF keepsObj_trans[OF k2 k3] k4] k5])
  have s5: "tickBeforeGuards s = ?s5" by (simp add: tickBeforeGuards_def)
  show ?thesis
  proof (cases "snd (updateGuardList (guards ?s5))")
    case True
    then have "stateOf (tick K now s) = tickAfterGuards K now ?s6"
      using assms(2) by (simp add: stateOf_tick s5)
    then show ?thesis
      using keepsObj_trans[OF keepsObj_trans[OF k15 k6] k7] by simp
  next
    case False
    then have "stateOf (tick K now s) = ?s6"
      using assms(2) by (simp add: stateOf_tick s5)
    then show ?thesis
      using keepsObj_trans[OF k15 k6] by simp
  qed
qed

lemma tick_keeps:
  assumes "\<And>i. P i \<Longrightarrow> i_type i \<noteq> TWinch \<and> i_type i \<noteq> TPlatform \<and> i_type i \<noteq> TDoor
              \<and> i_type i \<noteq> TCrate \<and> \<not> timedButton i
              \<and> i_type i \<noteq> TPressurePlate \<and> i_type i \<noteq> THazard"
  shows "keepsObj P s (stateOf (tick K now s))"
proof (cases "paused s")
  case True
  then show ?thesis by (simp add: stateOf_tick)
next
  case False
  let ?s0 = "s\<lparr>tick_n := tick_n s + 1\<rparr>"
  have a: "keepsObj P s ?s0" by (rule keepsObj_same_store) simp
  have b: "keepsObj P ?s0 (updatePressurePlates ?s0)"
    by (rule updatePressurePlates_keeps) (simp add: assms)
  have c: "keepsObj P (updatePressurePlates ?s0) (stateOf (tick K now s))"
    by (rule tick_after_plates_keeps[OF _ False]) (simp add: assms)
  show ?thesis by (rule keepsObj_trans[OF keepsObj_trans[OF a b] c])
qed

section \<open>Plates follow the current weight (C2)\<close>

lemma timedButton_type: "timedButton i \<Longrightarrow> i_type i = TButton"
  by (auto simp: timedButton_def i_type_def split: IState.splits option.splits)

lemma weightOn_tick_n [simp]: "weightOn (s\<lparr>tick_n := n\<rparr>) wp = weightOn s wp"
  by (simp add: weightOn_def)

lemma weightOn_isCrate:
  "weightOn s wp =
     (\<Sum>e \<leftarrow> entities s.
        if planarDist (e_position e) wp < plateRadius
        then (if e_type e = Panda then 2 else 1) else 0)
     + (\<Sum>c \<leftarrow> filter isCrate (interactables s).
        if planarDist (i_position c) wp < plateRadius then 2 else 0)"
proof -
  have "isCrate = (\<lambda>i. i_type i = TCrate)"
    by (simp add: fun_eq_iff isCrate_type)
  then have "filter isCrate (interactables s) = filter (\<lambda>i. i_type i = TCrate) (interactables s)"
    by simp
  then show ?thesis by (simp add: weightOn_def)
qed

lemma sum_list_zero:
  fixes f :: "'a \<Rightarrow> real"
  assumes "\<And>x. x \<in> set xs \<Longrightarrow> f x = 0"
  shows "sum_list (map f xs) = 0"
  using assms by (induction xs) auto

lemma tick_plate_lookup:
  assumes "distinct (interactableIds s)" "\<not> paused s"
    "getInteractable s k = Some p" "i_type p = TPressurePlate"
  shows "getInteractable (stateOf (tick K now s)) k = Some (updatedPlate s p)"
proof -
  let ?s0 = "s\<lparr>tick_n := tick_n s + 1\<rparr>"
  have d0: "distinct (interactableIds ?s0)" using assms(1) by (simp add: interactableIds_def)
  have g0: "getInteractable ?s0 k = Some p" using assms(3) by (simp add: getInteractable_def)
  have kin: "k \<in> set (interactableIds ?s0)"
    using g0 getInteractable_None_iff[of ?s0 k] by auto
  have "getInteractable (updatePressurePlates ?s0) k = Some (updatedPlate ?s0 p)"
    using updatePressurePlates_inv[OF d0] g0 assms(4) kin by (simp add: plateInv_def)
  moreover have "updatedPlate ?s0 p = updatedPlate s p"
    by (simp add: updatedPlate_def newActive_def)
  moreover have "i_type (updatedPlate s p) = TPressurePlate"
    using assms(4) by (simp add: updatedPlate_def)
  moreover have "keepsObj (\<lambda>i. i_type i = TPressurePlate) (updatePressurePlates ?s0)
      (stateOf (tick K now s))"
    by (rule tick_after_plates_keeps[OF _ assms(2)]) (auto dest: timedButton_type)
  ultimately show ?thesis by (simp add: keepsObj_def)
qed

text \<open>
  Claim C2. After a tick of a room that is not paused (store keys distinct), every pressure
  plate holds as \<open>currentWeight\<close> the sum, over the positions at the start of the tick
  (when the plate pass runs, nothing having moved yet), of 2 for each panda and 1 for each
  dog whose planar distance to the plate is below the plate radius and 2 for each such
  crate, and \<open>activated\<close> is true exactly when that sum reaches 2 for a heavy plate and 1
  for any other. The old flag does not enter: with nothing in range the plate ends the
  tick deactivated.
\<close>

theorem plate_activated_is_current_weight:
  fixes s :: Room and p :: InteractableState
  assumes "distinct (interactableIds s)" and "\<not> paused s"
    and "getInteractable s k = Some p" and "i_state p = PressurePlate a th w"
  defines "W \<equiv>
     (\<Sum>e \<leftarrow> entities s.
        if planarDist (e_position e) (i_position p) < plateRadius
        then (if e_type e = Panda then 2 else 1) else 0)
     + (\<Sum>c \<leftarrow> filter isCrate (interactables s).
        if planarDist (i_position c) (i_position p) < plateRadius then 2 else 0)"
  shows "getInteractable (stateOf (tick K now s)) k
           = Some (p\<lparr>i_state := PressurePlate (W \<ge> (if th = Heavy then 2 else 1)) th W\<rparr>)
     \<and> ((\<forall>e \<in> set (entities s). \<not> planarDist (e_position e) (i_position p) < plateRadius)
          \<and> (\<forall>c \<in> set (interactables s).
                isCrate c \<longrightarrow> \<not> planarDist (i_position c) (i_position p) < plateRadius)
         \<longrightarrow> getInteractable (stateOf (tick K now s)) k
               = Some (p\<lparr>i_state := PressurePlate False th 0\<rparr>))"
proof -
  have pt: "i_type p = TPressurePlate" using assms(4) by (simp add: i_type_def)
  have W: "W = weightOn s (i_position p)" by (simp add: W_def weightOn_isCrate)
  have main: "getInteractable (stateOf (tick K now s)) k
           = Some (p\<lparr>i_state := PressurePlate (W \<ge> (if th = Heavy then 2 else 1)) th W\<rparr>)"
    using tick_plate_lookup[OF assms(1-3) pt] assms(4)
    by (simp add: updatedPlate_def newActive_def setPlate_def requiredWeight_def W)
  have "W = 0"
    if "(\<forall>e \<in> set (entities s). \<not> planarDist (e_position e) (i_position p) < plateRadius)
          \<and> (\<forall>c \<in> set (interactables s).
                isCrate c \<longrightarrow> \<not> planarDist (i_position c) (i_position p) < plateRadius)"
  proof -
    have "(\<Sum>e \<leftarrow> entities s.
        if planarDist (e_position e) (i_position p) < plateRadius
        then (if e_type e = Panda then 2 else 1) else (0::real)) = 0"
      by (rule sum_list_zero) (use that in auto)
    moreover have "(\<Sum>c \<leftarrow> filter isCrate (interactables s).
        if planarDist (i_position c) (i_position p) < plateRadius then 2 else (0::real)) = 0"
      by (rule sum_list_zero) (use that in auto)
    ultimately show ?thesis by (simp add: W_def)
  qed
  with main show ?thesis by auto
qed

lemma plateRoom_entities:
  "entities (plateRoom dp) = [mkEntity Dog dp, mkEntity Panda (pos 4 2)]"
  "interactables (plateRoom dp) =
         [mkInteractable ''plate_light'' (pos 2 2) (PressurePlate False Light 0) [''gate''],
          mkInteractable ''plate_heavy'' (pos 4 2) (PressurePlate False Heavy 0) [''gate''],
          mkInteractable ''gate'' (pos 6 2) (Door False True False) []]"
  "\<not> paused (plateRoom dp)"
  "getInteractable (plateRoom dp) ''plate_light''
     = Some (mkInteractable ''plate_light'' (pos 2 2) (PressurePlate False Light 0) [''gate''])"
  by (simp_all add: plateRoom_def emptyRoom_def getInteractable_def mkInteractable_def)

text \<open>In the example room the light plate is activated by the dog standing on it and is
  not when the dog stands at (8, 8).\<close>

theorem plate_activated_is_current_weight_witness:
  "map_option i_state
     (getInteractable (stateOf (tick demoConstants 0 (plateRoom (pos 2 2)))) ''plate_light'')
     = Some (PressurePlate True Light 1)
   \<and> map_option i_state
     (getInteractable (stateOf (tick demoConstants 0 (plateRoom (pos 8 8)))) ''plate_light'')
     = Some (PressurePlate False Light 0)"
proof -
  have st: "i_state (mkInteractable ''plate_light'' (pos 2 2) (PressurePlate False Light 0) [''gate''])
      = PressurePlate False Light 0"
    by (simp add: mkInteractable_def)
  note a = plate_activated_is_current_weight[OF plateRoom_lookups(1)[of "pos 2 2"]
      plateRoom_entities(3,4) st, where K=demoConstants and now=0, THEN conjunct1]
  note b = plate_activated_is_current_weight[OF plateRoom_lookups(1)[of "pos 8 8"]
      plateRoom_entities(3,4) st, where K=demoConstants and now=0, THEN conjunct1]
  have "map_option i_state
     (getInteractable (stateOf (tick demoConstants 0 (plateRoom (pos 2 2)))) ''plate_light'')
     = Some (PressurePlate True Light 1)"
    unfolding a plateRoom_entities
    by (simp add: planarDist_plate isCrate_def mkInteractable_def mkEntity_def pos_def)
  moreover have "map_option i_state
     (getInteractable (stateOf (tick demoConstants 0 (plateRoom (pos 8 8)))) ''plate_light'')
     = Some (PressurePlate False Light 0)"
    unfolding b plateRoom_entities
    by (simp add: planarDist_plate isCrate_def mkInteractable_def mkEntity_def pos_def)
  ultimately show ?thesis by blast
qed

section \<open>Timed buttons (C4)\<close>

lemma untimedButton_frame:
  assumes "untimedButton i"
  shows "i_type i \<noteq> TWinch \<and> i_type i \<noteq> TPlatform \<and> i_type i \<noteq> TDoor
         \<and> i_type i \<noteq> TCrate \<and> \<not> timedButton i
         \<and> i_type i \<noteq> TPressurePlate \<and> i_type i \<noteq> THazard"
  using assms
  by (auto simp: untimedButton_def timedButton_def i_type_def split: IState.splits option.splits)

lemma runTicks_keeps:
  assumes "\<And>i. P i \<Longrightarrow> i_type i \<noteq> TWinch \<and> i_type i \<noteq> TPlatform \<and> i_type i \<noteq> TDoor
              \<and> i_type i \<noteq> TCrate \<and> \<not> timedButton i
              \<and> i_type i \<noteq> TPressurePlate \<and> i_type i \<noteq> THazard"
  shows "keepsObj P s (stateOf (runTicks K nows s))"
proof (induction nows arbitrary: s)
  case Nil
  show ?case by (simp add: stateOf_def)
next
  case (Cons now nows)
  have t: "keepsObj P s (stateOf (tick K now s))"
    by (rule tick_keeps) (simp add: assms)
  show ?case
  proof (cases "tick K now s")
    case (Returned s')
    then have "keepsObj P s s'" using t by (simp add: stateOf_def)
    from keepsObj_trans[OF this Cons[of s']] Returned show ?thesis by simp
  next
    case (Threw s')
    then show ?thesis using t by (simp add: stateOf_def)
  qed
qed

lemma toggleLinked_funpow_other:
  assumes "i_type i \<noteq> TDoor" "i_type i \<noteq> TPlatform"
  shows "(toggleLinked ^^ n) i = i"
  using assms by (induction n) (simp_all add: toggleLinked_other)

text \<open>
  Claim C4 fails on the code. Pressing a button through \<^verbatim>\<open>handleInteraction\<close> sets
  \<open>pressed\<close> and fires the links but never starts the countdown: \<open>timer\<close> stays
  undefined, as the level files configure it, and \<^verbatim>\<open>updateTimedButtons\<close> skips a
  button without a timer. So after the press the button stays pressed through any number
  of ticks, whatever its \<open>timerDuration\<close>.
\<close>

theorem pressed_button_never_released:
  assumes "players s pid = Some role" and "getInteractable s bid = Some b"
    and "i_state b = Button pr mo None td"
  shows "getInteractable
           (stateOf (runTicks K nows (snd (handleInteraction pid bid ''press'' s)))) bid
         = Some (b\<lparr>i_state := Button True mo None td\<rparr>)"
proof -
  let ?s1 = "triggerLinkedObjects (modifyInteractable bid (setPressed True) s) b"
  have h: "handleInteraction pid bid ''press'' s = succeeded ?s1 bid"
    by (rule handleInteraction_button_press[OF assms])
  have bt: "i_type (setPressed True b) \<noteq> TDoor" "i_type (setPressed True b) \<noteq> TPlatform"
    using assms(3) by (simp_all add: setPressed_def i_type_def)
  have "getInteractable (modifyInteractable bid (setPressed True) s) bid = Some (setPressed True b)"
    using assms(2) getInteractable_id[OF assms(2)] by (simp add: getInteractable_modify)
  then have "getInteractable ?s1 bid = Some (setPressed True b)"
    by (simp add: triggerLinkedObjects_get toggleLinked_funpow_other[OF bt])
  moreover have "setPressed True b = b\<lparr>i_state := Button True mo None td\<rparr>"
    using assms(3) by (simp add: setPressed_def)
  moreover have "untimedButton (b\<lparr>i_state := Button True mo None td\<rparr>)"
    by (simp add: untimedButton_def)
  moreover have "keepsObj untimedButton ?s1 (stateOf (runTicks K nows ?s1))"
    by (rule runTicks_keeps) (rule untimedButton_frame)
  ultimately show ?thesis
    by (simp add: h succeeded_def keepsObj_def)
qed

text \<open>The timed button of the example room, \<open>timerDuration = 5000\<close>, pressed by the dog: it
  is still pressed after 100 ticks and after 101.\<close>

theorem pressed_button_never_released_witness:
  "map_option i_state (getInteractable
      (stateOf (runTicks demoConstants (replicate 100 0)
         (snd (handleInteraction ''p1'' ''button_1'' ''press'' leverRoom)))) ''button_1'')
     = Some (Button True True None (Some 5000))
   \<and> map_option i_state (getInteractable
      (stateOf (runTicks demoConstants (replicate 101 0)
         (snd (handleInteraction ''p1'' ''button_1'' ''press'' leverRoom)))) ''button_1'')
     = Some (Button True True None (Some 5000))"
proof -
  have p: "players leverRoom ''p1'' = Some Dog"
    by (simp add: leverRoom_def emptyRoom_def)
  have g: "getInteractable leverRoom ''button_1''
      = Some (mkInteractable ''button_1'' (pos 3 8) (Button False True None (Some 5000)) [''door_1''])"
    by (simp add: getInteractable_def leverRoom_def emptyRoom_def mkInteractable_def)
  have st: "i_state (mkInteractable ''button_1'' (pos 3 8) (Button False True None (Some 5000)) [''door_1''])
      = Button False True None (Some 5000)"
    by (simp add: mkInteractable_def)
  show ?thesis
    by (simp add: pressed_button_never_released[OF p g st])
qed

section \<open>Hazard contact (C6)\<close>

lemma find_map_entity:
  assumes "\<And>e. e_id (f e) = e_id e"
  shows "find (\<lambda>e. e_id e = j) (map (\<lambda>e. if e_id e = k then f e else e) es)
         = map_option (\<lambda>e. if e_id e = k then f e else e) (find (\<lambda>e. e_id e = j) es)"
  using assms by (induction es) auto

lemma getEntity_modify:
  assumes "\<And>e. e_id (f e) = e_id e"
  shows "getEntity (modifyEntity k f s) j
         = map_option (\<lambda>e. if e_id e = k then f e else e) (getEntity s j)"
  using find_map_entity[OF assms] by (simp add: getEntity_def modifyEntity_def)

lemma getEntity_id: "getEntity s j = Some e \<Longrightarrow> e_id e = j"
  by (auto simp: getEntity_def dest: find_Some_iff[THEN iffD1])

lemma resetEntity_id [simp]: "e_id (resetEntity sp e) = e_id e"
  by (simp add: resetEntity_def)

lemma getSpawnPosition_cong:
  "levelData t = levelData s \<Longrightarrow> getSpawnPosition t role = getSpawnPosition s role"
  by (simp add: getSpawnPosition_def)

lemma respawnEntity_fields [simp]:
  "levelData (respawnEntity s e) = levelData s"
  "pendingRespawns (respawnEntity s e) = pendingRespawns s @
     [\<lparr>r_entityId = e_id e, r_role = e_type e, r_position = getSpawnPosition s (e_type e),
       r_reason = ByHazard\<rparr>]"
  by (simp_all add: respawnEntity_def Let_def modifyEntity_def)

lemma respawnEntity_get:
  "getEntity (respawnEntity s e) j
   = map_option (\<lambda>x. if e_id x = e_id e then resetEntity (getSpawnPosition s (e_type e)) x else x)
       (getEntity s j)"
proof -
  have "getEntity (respawnEntity s e) j
      = getEntity (modifyEntity (e_id e) (resetEntity (getSpawnPosition s (e_type e))) s) j"
    by (simp add: respawnEntity_def Let_def getEntity_def)
  then show ?thesis by (simp add: getEntity_modify)
qed

lemma hazardStep_eq:
  assumes "getEntity s eid = Some e"
  shows "hazardStep K eid s h
         = (if activeHazardNear K (e_position e) h then respawnEntity s e else s)"
  using assms by (simp add: hazardStep_def activeHazardNear_def split: IState.splits)

lemma hazardStep_absent:
  assumes "getEntity s eid = None"
  shows "hazardStep K eid s h = s"
  using assms by (simp add: hazardStep_def split: IState.splits)

text \<open>The hazards examined for one entity: nothing happens to an entity out of reach of
  all of them; an entity within reach of one, whose spawn point is out of reach of all, is
  respawned once.\<close>

lemma hazards_safe:
  assumes "getEntity t eid = Some e" "\<forall>h \<in> set hs. \<not> activeHazardNear K (e_position e) h"
  shows "foldl (hazardStep K eid) t hs = t"
  using assms by (induction hs) (simp_all add: hazardStep_eq)

lemma hazards_hit:
  assumes "getEntity t eid = Some e" "\<exists>h \<in> set hs. activeHazardNear K (e_position e) h"
    "\<forall>h \<in> set hs. \<not> activeHazardNear K (getSpawnPosition t (e_type e)) h"
  shows "foldl (hazardStep K eid) t hs = respawnEntity t e"
  using assms
proof (induction hs)
  case Nil
  then show ?case by simp
next
  case (Cons h hs)
  show ?case
  proof (cases "activeHazardNear K (e_position e) h")
    case True
    let ?t1 = "respawnEntity t e"
    let ?e1 = "resetEntity (getSpawnPosition t (e_type e)) e"
    have g1: "getEntity ?t1 eid = Some ?e1"
      using Cons.prems(1) getEntity_id[OF Cons.prems(1)] by (simp add: respawnEntity_get)
    have "\<forall>h \<in> set hs. \<not> activeHazardNear K (e_position ?e1) h"
      using Cons.prems(3) by (simp add: resetEntity_def)
    from hazards_safe[OF g1 this] True Cons.prems(1) show ?thesis
      by (simp add: hazardStep_eq)
  next
    case False
    with Cons show ?thesis by (simp add: hazardStep_eq)
  qed
qed


lemma foldl_invariant:
  assumes "\<And>t k. k \<in> set ks \<Longrightarrow> f (step t k) = f t"
  shows "f (foldl step s ks) = f s"
  using assms by (induction ks arbitrary: s) simp_all

lemma hazardStep_other:
  assumes "eid \<noteq> eid0"
  shows "hazardView eid0 (hazardStep K eid s h) = hazardView eid0 s"
proof (cases "getEntity s eid")
  case None
  then show ?thesis by (simp add: hazardStep_absent)
next
  case (Some e)
  have id: "e_id e = eid" by (rule getEntity_id[OF Some])
  have "getEntity (respawnEntity s e) eid0 = getEntity s eid0"
  proof (cases "getEntity s eid0")
    case None
    then show ?thesis by (simp add: respawnEntity_get)
  next
    case (Some x)
    then have "e_id x = eid0" by (rule getEntity_id)
    with Some id assms show ?thesis by (simp add: respawnEntity_get)
  qed
  moreover have "eventsFor eid0 (respawnEntity s e) = eventsFor eid0 s"
    using id assms by (simp add: eventsFor_def)
  ultimately have "hazardView eid0 (respawnEntity s e) = hazardView eid0 s"
    by (simp add: hazardView_def)
  then show ?thesis by (simp add: hazardStep_eq[OF Some])
qed

lemma hazardEntityStep_other:
  assumes "eid \<noteq> eid0"
  shows "hazardView eid0 (hazardEntityStep K s eid) = hazardView eid0 s"
  unfolding hazardEntityStep_def
  by (rule foldl_invariant) (rule hazardStep_other[OF assms])

lemma hazard_pass_others:
  assumes "eid0 \<notin> set ids"
  shows "hazardView eid0 (foldl (hazardEntityStep K) s ids) = hazardView eid0 s"
proof (rule foldl_invariant)
  fix t k assume "k \<in> set ids"
  then have "k \<noteq> eid0" using assms by auto
  then show "hazardView eid0 (hazardEntityStep K t k) = hazardView eid0 t"
    by (rule hazardEntityStep_other)
qed

text \<open>
  Claim C6, as amended. In the hazard pass of a tick (entity ids distinct), an entity
  within the hazard collision radius of an active hazard, whose spawn point is within the
  radius of no active hazard, is put at its spawn point (the level's spawn for its role,
  or the built-in default), with velocity zero and state idle, and exactly one respawn
  event, with its id, role, the spawn point and reason hazard, is appended for it. The
  checkpoint set by \<^verbatim>\<open>setCheckpoint\<close> is not read.
\<close>

theorem hazard_contact_respawns_at_spawn:
  assumes "distinct (map e_id (entities s))" and "getEntity s eid = Some e"
    and "\<exists>h \<in> set (interactables s). activeHazardNear K (e_position e) h"
    and "\<forall>h \<in> set (interactables s). \<not> activeHazardNear K (getSpawnPosition s (e_type e)) h"
  shows "getEntity (checkHazardCollisions K s) eid
           = Some (e\<lparr>e_position := getSpawnPosition s (e_type e),
                    e_velocity := \<lparr>vx = 0, vy = 0\<rparr>, e_state := Idle\<rparr>)
     \<and> eventsFor eid (checkHazardCollisions K s)
           = eventsFor eid s @
             [\<lparr>r_entityId = eid, r_role = e_type e,
               r_position = getSpawnPosition s (e_type e), r_reason = ByHazard\<rparr>]"
proof -
  have "eid \<in> set (map e_id (entities s))"
    using assms(2) by (auto simp: getEntity_def find_Some_iff)
  then obtain pre post where ids: "map e_id (entities s) = pre @ eid # post"
    by (auto dest: split_list)
  then have npre: "eid \<notin> set pre" and npost: "eid \<notin> set post"
    using assms(1) by auto
  let ?t1 = "foldl (hazardEntityStep K) s pre"
  let ?t2 = "hazardEntityStep K ?t1 eid"
  have v1: "hazardView eid ?t1 = hazardView eid s" by (rule hazard_pass_others[OF npre])
  then have g1: "getEntity ?t1 eid = Some e" and x1: "interactables ?t1 = interactables s"
    and l1: "levelData ?t1 = levelData s" and e1: "eventsFor eid ?t1 = eventsFor eid s"
    using assms(2) by (simp_all add: hazardView_def)
  have sp: "getSpawnPosition ?t1 (e_type e) = getSpawnPosition s (e_type e)"
    by (rule getSpawnPosition_cong[OF l1])
  have "?t2 = foldl (hazardStep K eid) ?t1 (interactables ?t1)"
    by (rule hazardEntityStep_def)
  also have "\<dots> = foldl (hazardStep K eid) ?t1 (interactables s)"
    by (simp only: x1)
  also have "\<dots> = respawnEntity ?t1 e"
    by (rule hazards_hit[OF g1 assms(3)]) (simp add: sp assms(4))
  finally have t2: "?t2 = respawnEntity ?t1 e" .
  have id: "e_id e = eid" by (rule getEntity_id[OF assms(2)])
  have g2: "getEntity ?t2 eid = Some (resetEntity (getSpawnPosition s (e_type e)) e)"
    using g1 id by (simp add: t2 respawnEntity_get sp)
  have e2: "eventsFor eid ?t2 = eventsFor eid s @
             [\<lparr>r_entityId = eid, r_role = e_type e,
               r_position = getSpawnPosition s (e_type e), r_reason = ByHazard\<rparr>]"
    using e1 id by (simp add: t2 eventsFor_def sp)
  have "checkHazardCollisions K s = foldl (hazardEntityStep K) ?t2 post"
    by (simp add: checkHazardCollisions_def ids)
  moreover have "hazardView eid (foldl (hazardEntityStep K) ?t2 post) = hazardView eid ?t2"
    by (rule hazard_pass_others[OF npost])
  ultimately have "getEntity (checkHazardCollisions K s) eid = getEntity ?t2 eid"
    and "eventsFor eid (checkHazardCollisions K s) = eventsFor eid ?t2"
    by (simp_all add: hazardView_def)
  with g2 e2 show ?thesis by (simp add: resetEntity_def)
qed


lemma near_demo:
  "activeHazardNear demoConstants wp h
   \<longleftrightarrow> (case i_state h of
          Hazard active \<Rightarrow> active \<and>
            (px wp - px (i_position h)) * (px wp - px (i_position h))
            + (py wp - py (i_position h)) * (py wp - py (i_position h)) < 0.25
        | _ \<Rightarrow> False)"
proof -
  have r: "HAZARD_COLLISION_RADIUS demoConstants = 1 / 2" by (simp add: demoConstants_def)
  show ?thesis
    using planarDist_less[of "1 / 2" wp "i_position h"]
    by (simp add: activeHazardNear_def r split: IState.splits)
qed

lemma hazardRoom_facts:
  "distinct (map e_id (entities (hazardRoom hp)))"
  "getEntity (hazardRoom hp) ''dog_entity'' = Some (mkEntity Dog (pos 5 5))"
  "interactables (hazardRoom hp) =
         [mkInteractable ''spikes_1'' (pos 5 5) (Hazard True) [],
          mkInteractable ''spikes_2'' hp (Hazard True) []]"
  "getSpawnPosition (hazardRoom hp) Dog = pos 2 2"
  "eventsFor ''dog_entity'' (hazardRoom hp) = []"
  by (simp_all add: hazardRoom_def emptyRoom_def getEntity_def mkEntity_def entityIdOf_def
      getSpawnPosition_def openLevel_def eventsFor_def)

text \<open>The amended claim in the example room: the dog on the spikes goes back to its spawn
  point (2, 2) and one event is queued.\<close>

theorem hazard_contact_respawns_at_spawn_witness:
  "getEntity (checkHazardCollisions demoConstants (hazardRoom (pos 7 7))) ''dog_entity''
     = Some ((mkEntity Dog (pos 5 5))\<lparr>e_position := pos 2 2\<rparr>)
   \<and> eventsFor ''dog_entity'' (checkHazardCollisions demoConstants (hazardRoom (pos 7 7)))
     = [\<lparr>r_entityId = ''dog_entity'', r_role = Dog, r_position = pos 2 2, r_reason = ByHazard\<rparr>]"
proof -
  have ty: "e_type (mkEntity Dog (pos 5 5)) = Dog" "e_position (mkEntity Dog (pos 5 5)) = pos 5 5"
    by (simp_all add: mkEntity_def)
  have hit: "\<exists>h \<in> set (interactables (hazardRoom (pos 7 7))).
      activeHazardNear demoConstants (e_position (mkEntity Dog (pos 5 5))) h"
    unfolding hazardRoom_facts ty by (simp add: near_demo mkInteractable_def pos_def)
  have safe: "\<forall>h \<in> set (interactables (hazardRoom (pos 7 7))).
      \<not> activeHazardNear demoConstants
          (getSpawnPosition (hazardRoom (pos 7 7)) (e_type (mkEntity Dog (pos 5 5)))) h"
    unfolding hazardRoom_facts ty by (simp add: near_demo mkInteractable_def pos_def)
  from hazard_contact_respawns_at_spawn[OF hazardRoom_facts(1,2) hit safe]
  show ?thesis
    unfolding hazardRoom_facts ty by (simp add: mkEntity_def)
qed

lemmas hazard_eval =
  checkHazardCollisions_def hazardEntityStep_def hazardStep_def respawnEntity_def
  modifyEntity_def getEntity_def getSpawnPosition_def resetEntity_def setCheckpoint_def
  hazardRoom_def emptyRoom_def openLevel_def mkEntity_def mkInteractable_def entityIdOf_def
  eventsFor_def Let_def

lemmas tick_eval =
  tick_def tickBeforeGuards_def tickAfterGuards_def stateOf_def
  updatePressurePlates_def plateStep_def interactableIds_def getInteractable_def
  updateWinches_def winchStep_def updatePlatforms_def updatePlatform_def
  updateTimedButtons_def timedButtonStep_def updateConveyors_def conveyorStep_def
  updateGuards_def updateDistractions_def checkGuardDetection_def
  checkPuzzleCompletion_def expirePings_def

lemma hazard_demo_near:
  "planarDist a b < HAZARD_COLLISION_RADIUS demoConstants
   \<longleftrightarrow> (px a - px b) * (px a - px b) + (py a - py b) * (py a - py b) < 0.25"
proof -
  have r: "HAZARD_COLLISION_RADIUS demoConstants = 1 / 2" by (simp add: demoConstants_def)
  show ?thesis using planarDist_less[of "1 / 2" a b] by (simp add: r)
qed

text \<open>
  Claim C6 as stated fails. With a checkpoint set at (8, 8) for the dog, the dog on the
  spikes is put at its level spawn (2, 2) by the tick, not at the checkpoint. And when the
  spawn point itself lies on a second active hazard stored after the first, the same tick
  respawns the dog twice and queues two events for it.
\<close>

theorem hazard_respawn_counterexample:
  "checkpointPosition (setCheckpoint (pos 8 8) (pos 9 8) (hazardRoom (pos 7 7)))
     = Some \<lparr>cp_dog = pos 8 8, cp_panda = pos 9 8\<rparr>
   \<and> map_option e_position
       (getEntity (stateOf (tick demoConstants 0
          (setCheckpoint (pos 8 8) (pos 9 8) (hazardRoom (pos 7 7))))) ''dog_entity'')
     = Some (pos 2 2)
   \<and> map_option e_position
       (getEntity (checkHazardCollisions demoConstants
          (setCheckpoint (pos 8 8) (pos 9 8) (hazardRoom (pos 7 7)))) ''dog_entity'')
     = Some (pos 2 2)
   \<and> length (eventsFor ''dog_entity''
       (stateOf (tick demoConstants 0 (hazardRoom (pos 2 2))))) = 2"
  by (simp add: tick_eval hazard_eval hazard_demo_near pos_def)

section \<open>Runs and the wall clock (C9)\<close>

lemma clockFree_stable: "stable t = stable s \<Longrightarrow> clockFree t = clockFree s"
  using stable_fields(3,7)[of t s] by (simp add: clockFree_def)

lemma updateGuards_clockFree [simp]:
  "clockFree (stateOf (updateGuards s)) = clockFree s"
  by (simp add: updateGuards_def stateOf_def clockFree_def)

lemma foldl_clockFree:
  assumes "\<And>t k. clockFree (step t k) = clockFree t"
  shows "clockFree (foldl step s ks) = clockFree s"
  using assms by (induction ks arbitrary: s) simp_all

lemma catchStep_clockFree [simp]: "clockFree (catchStep gid s eid) = clockFree s"
  by (simp add: catchStep_def modifyGuard_def respawnPlayersAtCheckpoint_def clockFree_def
      split: option.splits)

lemma guardDetectStep_clockFree [simp]: "clockFree (guardDetectStep s gid) = clockFree s"
proof (cases "getGuard s gid")
  case None
  then show ?thesis by (simp add: guardDetectStep_def)
next
  case (Some g)
  have "\<And>f. clockFree (modifyGuard gid f s) = clockFree s"
    by (simp add: modifyGuard_def clockFree_def)
  then show ?thesis
    using Some by (simp add: guardDetectStep_def Let_def foldl_clockFree)
qed

lemma checkGuardDetection_clockFree [simp]:
  "clockFree (checkGuardDetection s) = clockFree s"
  by (simp add: checkGuardDetection_def foldl_clockFree)

lemma updateDistractions_clockFree:
  "clockFree s \<Longrightarrow> updateDistractions now s = s"
  by (simp add: updateDistractions_def clockFree_def)

lemma expirePings_clockFree:
  "clockFree s \<Longrightarrow> expirePings now s = s"
  by (simp add: expirePings_def clockFree_def)

lemma tickAfterGuards_clockFree:
  assumes "clockFree s"
  shows "tickAfterGuards K now s
         = checkPuzzleCompletion (checkGuardDetection (checkHazardCollisions K s))"
proof -
  let ?x = "checkPuzzleCompletion (checkGuardDetection (checkHazardCollisions K s))"
  have "clockFree (checkHazardCollisions K s)"
    using assms clockFree_stable[OF checkHazardCollisions_stable] by simp
  then have "clockFree (checkGuardDetection (checkHazardCollisions K s))" by simp
  then have "clockFree ?x"
    using clockFree_stable[OF checkPuzzleCompletion_stable] by simp
  then show ?thesis
    using assms by (simp add: tickAfterGuards_def updateDistractions_clockFree
        expirePings_clockFree)
qed

lemma tick_clock_free:
  assumes "clockFree s"
  shows "tick K a s = tick K b s"
proof -
  have "clockFree (tickBeforeGuards s)"
    using assms clockFree_stable[OF tickBeforeGuards_stable] by simp
  then have c: "clockFree (stateOf (updateGuards (tickBeforeGuards s)))" by simp
  show ?thesis
  proof (cases "updateGuards (tickBeforeGuards s)")
    case (Returned s6)
    then have "clockFree s6" using c by (simp add: stateOf_def)
    then show ?thesis
      using Returned by (simp add: tick_def tickAfterGuards_clockFree)
  next
    case (Threw s6)
    then show ?thesis by (simp add: tick_def)
  qed
qed

lemma tick_keeps_clockFree:
  assumes "clockFree s"
  shows "clockFree (stateOf (tick K now s))"
proof -
  have "clockFree (tickBeforeGuards s)"
    using assms clockFree_stable[OF tickBeforeGuards_stable] by simp
  then have c: "clockFree (stateOf (updateGuards (tickBeforeGuards s)))" by simp
  let ?s6 = "stateOf (updateGuards (tickBeforeGuards s))"
  have "clockFree (checkHazardCollisions K ?s6)"
    using c clockFree_stable[OF checkHazardCollisions_stable] by simp
  then have "clockFree (checkGuardDetection (checkHazardCollisions K ?s6))" by simp
  then have "clockFree (checkPuzzleCompletion (checkGuardDetection (checkHazardCollisions K ?s6)))"
    using clockFree_stable[OF checkPuzzleCompletion_stable] by simp
  then have "clockFree (tickAfterGuards K now ?s6)"
    using c by (simp add: tickAfterGuards_clockFree)
  then show ?thesis
    using assms c by (simp add: stateOf_tick)
qed

lemma handleInput_clockFree [simp]:
  "clockFree (handleInput K pid tk inp wp s) = clockFree s"
  by (simp add: handleInput_def Let_def modifyEntity_def clockFree_def split: option.splits)

lemma succeeded_snd [simp]: "snd (succeeded s k) = s"
  by (simp add: succeeded_def)

lemma processInteraction_stable [simp]:
  "stable (snd (processInteraction s i action role)) = stable s"
  by (simp add: processInteraction_def Let_def split: IState.splits option.splits)

lemma handleInteraction_stable [simp]:
  "stable (snd (handleInteraction pid tid action s)) = stable s"
  by (simp add: handleInteraction_def split: option.splits)

lemma clearBeingPushed_stable [simp]: "stable (clearBeingPushed cid s) = stable s"
  by (simp add: clearBeingPushed_def)


lemma runEvents_clock_free:
  assumes "list_all2 sameButClock evs1 evs2"
  shows "clockFree s \<Longrightarrow> runEvents K evs1 s = runEvents K evs2 s"
  using assms
proof (induction arbitrary: s rule: list_all2_induct)
  case Nil
  show ?case by simp
next
  case (Cons e1 evs1 e2 evs2)
  show ?case
  proof (cases e1)
    case (EvTick a)
    then obtain b where e2: "e2 = EvTick b"
      using Cons.hyps(1) by (cases e2) simp_all
    have same: "tick K a s = tick K b s" by (rule tick_clock_free[OF Cons.prems])
    show ?thesis
    proof (cases "tick K b s")
      case (Returned s')
      then have "clockFree s'"
        using tick_keeps_clockFree[OF Cons.prems, of K b] by (simp add: stateOf_def)
      then show ?thesis using EvTick e2 same Returned Cons.IH by simp
    next
      case (Threw s')
      then show ?thesis using EvTick e2 same by simp
    qed
  next
    case (EvInput pid tk inp wp)
    then have "e2 = e1" using Cons.hyps(1) by simp
    then show ?thesis using EvInput Cons.IH Cons.prems by simp
  next
    case (EvInteract pid tid action)
    then have "e2 = e1" using Cons.hyps(1) by simp
    moreover have "clockFree (snd (handleInteraction pid tid action s))"
      using Cons.prems clockFree_stable[OF handleInteraction_stable] by simp
    ultimately show ?thesis using EvInteract Cons.IH by simp
  next
    case (EvCrateTimeout cid)
    then have "e2 = e1" using Cons.hyps(1) by simp
    moreover have "clockFree (clearBeingPushed cid s)"
      using Cons.prems clockFree_stable[OF clearBeingPushed_stable] by simp
    ultimately show ?thesis using EvCrateTimeout Cons.IH by simp
  qed
qed

text \<open>
  Claim C9, as amended. Two runs of a room from the same state, with the same ticks,
  inputs, interactions and crate-push callbacks in the same order, end in the same state
  whatever the wall clock reads at each tick, provided the room starts with no distraction
  and no ping outstanding (the run creates none): plate weights, button countdowns, winch
  and platform motion and the guards' timers advance by the tick alone.
\<close>

theorem runs_agree_but_for_clock:
  assumes "list_all2 sameButClock evs1 evs2" and "distractions s = []" and "pings s = []"
  shows "runEvents K evs1 s = runEvents K evs2 s"
  using runEvents_clock_free[OF assms(1)] assms(2,3) by (simp add: clockFree_def)

text \<open>In the example room a lever toggle followed by two ticks ends the same whether the
  clock reads 0 and 50 or 1000 and 99999.\<close>

theorem runs_agree_but_for_clock_witness:
  "runEvents demoConstants [EvInteract ''p1'' ''lever_1'' ''toggle'', EvTick 0, EvTick 50] leverRoom
   = runEvents demoConstants
       [EvInteract ''p1'' ''lever_1'' ''toggle'', EvTick 1000, EvTick 99999] leverRoom"
proof -
  have l: "list_all2 sameButClock
      [EvInteract ''p1'' ''lever_1'' ''toggle'', EvTick 0, EvTick 50]
      [EvInteract ''p1'' ''lever_1'' ''toggle'', EvTick 1000, EvTick 99999]"
    by simp
  have d: "distractions leverRoom = []" "pings leverRoom = []"
    by (simp_all add: leverRoom_def emptyRoom_def)
  show ?thesis by (rule runs_agree_but_for_clock[OF l d])
qed

text \<open>
  Claim C9 as stated fails. The same single tick of the example room with three pings
  keeps them when the clock reads 0 and purges them when it reads 20000: ping expiry
  (like distraction expiry) compares against \<^verbatim>\<open>Date.now()\<close>. And after a crate push the
  \<open>beingPushed\<close> flag survives a tick, and is cleared only by the timeout callback.
\<close>

theorem clock_dependence_counterexample:
  "runEvents demoConstants [EvTick 0] pingRoom \<noteq> runEvents demoConstants [EvTick 20000] pingRoom
   \<and> map pg_id (pings (stateOf (tick demoConstants 0 pingRoom))) = [''a'', ''b'', ''c'']
   \<and> pings (stateOf (tick demoConstants 20000 pingRoom)) = []
   \<and> map_option i_state (getInteractable
        (stateOf (runEvents demoConstants
           [EvInteract ''p2'' ''crate_1'' ''push'', EvTick 0] (crateRoom (pos 1 2)))) ''crate_1'')
      = Some (Crate True 3 2)
   \<and> map_option i_state (getInteractable
        (stateOf (runEvents demoConstants
           [EvInteract ''p2'' ''crate_1'' ''push'', EvCrateTimeout ''crate_1'', EvTick 0]
           (crateRoom (pos 1 2)))) ''crate_1'')
      = Some (Crate False 3 2)"
proof -
  have p0: "tick demoConstants 0 pingRoom = Returned (pingRoom\<lparr>tick_n := 1\<rparr>)"
    by (simp add: tick_eval checkHazardCollisions_def pingRoom_def emptyRoom_def openLevel_def
        mkPing_def pos_def)
  have p1: "tick demoConstants 20000 pingRoom = Returned (pingRoom\<lparr>pings := [], tick_n := 1\<rparr>)"
    by (simp add: tick_eval checkHazardCollisions_def pingRoom_def emptyRoom_def openLevel_def
        mkPing_def pos_def)
  have ne: "pingRoom\<lparr>tick_n := 1\<rparr> \<noteq> pingRoom\<lparr>pings := [], tick_n := 1\<rparr>"
  proof
    assume "pingRoom\<lparr>tick_n := 1\<rparr> = pingRoom\<lparr>pings := [], tick_n := 1\<rparr>"
    then have "pings (pingRoom\<lparr>tick_n := 1\<rparr>) = pings (pingRoom\<lparr>pings := [], tick_n := 1\<rparr>)"
      by (rule arg_cong)
    then show False by (simp add: pingRoom_def)
  qed
  have a: "runEvents demoConstants [EvTick 0] pingRoom \<noteq> runEvents demoConstants [EvTick 20000] pingRoom"
    using ne by (simp add: p0 p1)
  have b: "map pg_id (pings (stateOf (tick demoConstants 0 pingRoom))) = [''a'', ''b'', ''c'']"
    unfolding p0 by (simp add: stateOf_def pingRoom_def mkPing_def)
  have c: "pings (stateOf (tick demoConstants 20000 pingRoom)) = []"
    unfolding p1 by (simp add: stateOf_def)
  have push: "snd (handleInteraction ''p2'' ''crate_1'' ''push'' (crateRoom (pos 1 2)))
      = modifyInteractable ''crate_1'' (pushCrate 3 2) (crateRoom (pos 1 2))"
    by (simp add: handleInteraction_def canInteract_def processInteraction_def
        isValidCratePosition_def pushDirection_def getInteractable_def getEntity_def
        crateRoom_def emptyRoom_def tiledLevel_def groundTile_def waterTile_def
        mkInteractable_def mkEntity_def entityIdOf_def isCrate_def pos_def Let_def)
  have d: "map_option i_state (getInteractable
        (stateOf (runEvents demoConstants
           [EvInteract ''p2'' ''crate_1'' ''push'', EvTick 0] (crateRoom (pos 1 2)))) ''crate_1'')
      = Some (Crate True 3 2)"
    unfolding runEvents.simps push
    by (simp add: tick_eval hazard_eval modifyInteractable_def pushCrate_def crateRoom_def
        tiledLevel_def pos_def split: Outcome.splits)
  have e: "map_option i_state (getInteractable
        (stateOf (runEvents demoConstants
           [EvInteract ''p2'' ''crate_1'' ''push'', EvCrateTimeout ''crate_1'', EvTick 0]
           (crateRoom (pos 1 2)))) ''crate_1'')
      = Some (Crate False 3 2)"
    unfolding runEvents.simps push
    by (simp add: tick_eval hazard_eval modifyInteractable_def pushCrate_def crateRoom_def
        clearBeingPushed_def tiledLevel_def pos_def split: Outcome.splits)
  show ?thesis using a b c d e by blast
qed

section \<open>Guards: lookups\<close>

lemma find_rel:
  assumes r: "list_all2 R gs gs'" and i: "\<And>g g'. R g g' \<Longrightarrow> g_id g' = g_id g"
    and f: "find (\<lambda>g. g_id g = k) gs = Some g"
  shows "\<exists>g'. find (\<lambda>g. g_id g = k) gs' = Some g' \<and> R g g'"
  using r f
proof (induction rule: list_all2_induct)
  case Nil
  then show ?case by simp
next
  case (Cons x xs y ys)
  have id: "g_id y = g_id x" by (rule i[OF Cons.hyps(1)])
  show ?case
  proof (cases "g_id x = k")
    case True
    with Cons.prems have "g = x" by simp
    with True id Cons.hyps(1) show ?thesis by simp
  next
    case False
    with Cons.prems have "find (\<lambda>g. g_id g = k) xs = Some g" by simp
    from Cons.IH[OF this] False id show ?thesis by simp
  qed
qed

lemma ids_rel:
  assumes r: "list_all2 R gs gs'" and i: "\<And>g g'. R g g' \<Longrightarrow> g_id g' = g_id g"
  shows "map g_id gs' = map g_id gs"
  using r
proof (induction rule: list_all2_induct)
  case Nil
  show ?case by simp
next
  case (Cons x xs y ys)
  from i[OF Cons.hyps(1)] Cons.IH show ?case by simp
qed

lemma find_map_id:
  assumes "\<And>g. g_id (f g) = g_id g"
  shows "find (\<lambda>g. g_id g = j) (map f gs) = map_option f (find (\<lambda>g. g_id g = j) gs)"
  using assms by (induction gs) simp_all

lemma getGuard_id: "getGuard s j = Some g \<Longrightarrow> g_id g = j"
  unfolding getGuard_def by (drule find_Some_iff[THEN iffD1]) blast

lemma getGuard_mem: "getGuard s j = Some g \<Longrightarrow> j \<in> set (map g_id (guards s))"
  unfolding getGuard_def by (drule find_Some_iff[THEN iffD1]) force

lemma getGuard_modify:
  assumes "\<And>g. g_id (f g) = g_id g"
  shows "getGuard (modifyGuard k f s) j = (if j = k then map_option f (getGuard s j) else getGuard s j)"
proof -
  let ?h = "\<lambda>g. if g_id g = k then f g else g"
  have h: "\<And>g. g_id (?h g) = g_id g" using assms by simp
  have 1: "getGuard (modifyGuard k f s) j = map_option ?h (getGuard s j)"
    unfolding getGuard_def modifyGuard_def using find_map_id[of ?h j "guards s", OF h] by simp
  show ?thesis
  proof (cases "getGuard s j")
    case None
    with 1 show ?thesis by auto
  next
    case (Some g)
    from getGuard_id[OF Some] 1 Some show ?thesis by auto
  qed
qed

section \<open>Guards: the AI update\<close>

lemma moveGuard_fields [simp]:
  "g_id (moveGuard g dx dy d sp) = g_id g"
  "g_alertState (moveGuard g dx dy d sp) = g_alertState g"
  "g_lastSeenPlayerPos (moveGuard g dx dy d sp) = g_lastSeenPlayerPos g"
  "g_alertTimer (moveGuard g dx dy d sp) = g_alertTimer g"
  by (simp_all add: moveGuard_def)

lemma updateGuardPatrol_fields:
  assumes "updateGuardPatrol g = Some g'"
  shows "g_id g' = g_id g \<and> g_alertState g' = g_alertState g"
  using assms by (auto simp: updateGuardPatrol_def Let_def split: if_splits)

lemma updateGuardSuspicious_fields:
  "g_id (updateGuardSuspicious g) = g_id g"
  "g_alertState (updateGuardSuspicious g) = g_alertState g
   \<or> g_alertState (updateGuardSuspicious g) = Returning"
  by (simp_all add: updateGuardSuspicious_def Let_def split: option.splits)

lemma updateGuardAlert_fields:
  "g_id (updateGuardAlert g) = g_id g"
  "g_alertState (updateGuardAlert g) = g_alertState g
   \<or> (g_alertState (updateGuardAlert g) = Suspicious \<and> g_lastSeenPlayerPos g = None)"
  by (simp_all add: updateGuardAlert_def Let_def split: option.splits)

lemma updateGuardReturning_fields:
  "g_id (updateGuardReturning g) = g_id g"
  "g_alertState (updateGuardReturning g) = g_alertState g
   \<or> g_alertState (updateGuardReturning g) = GIdle"
  by (simp_all add: updateGuardReturning_def Let_def)

text \<open>The AI update of one guard keeps its id, never makes it alert, and makes it
  suspicious only from alert with no last-seen position.\<close>

lemma updateGuard_step:
  assumes u: "updateGuard g = Some g'"
  shows "g_id g' = g_id g"
    and "g_alertState g' = Alert \<Longrightarrow> g_alertState g = Alert"
    and "g_alertState g' = Suspicious \<Longrightarrow> g_alertState g \<noteq> Suspicious \<Longrightarrow>
           g_alertState g = Alert \<and> g_lastSeenPlayerPos g = None"
proof -
  have "g_id g' = g_id g
      \<and> (g_alertState g' = Alert \<longrightarrow> g_alertState g = Alert)
      \<and> (g_alertState g' = Suspicious \<and> g_alertState g \<noteq> Suspicious \<longrightarrow>
           g_alertState g = Alert \<and> g_lastSeenPlayerPos g = None)"
  proof (cases "g_alertState g")
    case GIdle
    with u have "updateGuardPatrol g = Some g'" by (simp add: updateGuard_def)
    from updateGuardPatrol_fields[OF this] GIdle show ?thesis by simp
  next
    case Suspicious
    with u have e: "g' = updateGuardSuspicious g" by (simp add: updateGuard_def)
    from updateGuardSuspicious_fields[of g] Suspicious show ?thesis unfolding e by auto
  next
    case Alert
    with u have e: "g' = updateGuardAlert g" by (simp add: updateGuard_def)
    from updateGuardAlert_fields[of g] Alert show ?thesis unfolding e by auto
  next
    case Returning
    with u have e: "g' = updateGuardReturning g" by (simp add: updateGuard_def)
    from updateGuardReturning_fields[of g] Returning show ?thesis unfolding e by auto
  qed
  then show "g_id g' = g_id g"
    and "g_alertState g' = Alert \<Longrightarrow> g_alertState g = Alert"
    and "g_alertState g' = Suspicious \<Longrightarrow> g_alertState g \<noteq> Suspicious \<Longrightarrow>
           g_alertState g = Alert \<and> g_lastSeenPlayerPos g = None"
    by blast+
qed

lemma updateGuardList_rel:
  "list_all2 (\<lambda>g g'. g' = g \<or> updateGuard g = Some g') gs (fst (updateGuardList gs))"
proof (induction gs)
  case Nil
  show ?case by simp
next
  case (Cons a gs)
  show ?case
  proof (cases "updateGuard a")
    case None
    have "list_all2 (\<lambda>g g'. g' = g \<or> updateGuard g = Some g') (a # gs) (a # gs)"
      by (rule list_all2_refl) simp
    then show ?thesis using None by simp
  next
    case (Some a')
    then show ?thesis using Cons by simp
  qed
qed

lemma updateGuardList_rel_ok:
  "snd (updateGuardList gs)
   \<Longrightarrow> list_all2 (\<lambda>g g'. updateGuard g = Some g') gs (fst (updateGuardList gs))"
proof (induction gs)
  case Nil
  show ?case by simp
next
  case (Cons a gs)
  show ?case
  proof (cases "updateGuard a")
    case None
    then show ?thesis using Cons.prems by simp
  next
    case (Some a')
    then show ?thesis using Cons by simp
  qed
qed

lemma updateGuards_guards:
  "guards (stateOf (updateGuards s)) = fst (updateGuardList (guards s))"
  by (simp add: updateGuards_def stateOf_def)

lemma updateGuards_ids:
  "map g_id (guards (stateOf (updateGuards s))) = map g_id (guards s)"
proof -
  have i: "\<And>g g'. g' = g \<or> updateGuard g = Some g' \<Longrightarrow> g_id g' = g_id g"
    using updateGuard_step(1) by blast
  have "map g_id (fst (updateGuardList (guards s))) = map g_id (guards s)"
    by (rule ids_rel[OF updateGuardList_rel]) (rule i)
  then show ?thesis by (simp add: updateGuards_guards)
qed

lemma updateGuards_guard:
  assumes g: "getGuard s gid = Some g"
  shows "\<exists>g1. getGuard (stateOf (updateGuards s)) gid = Some g1
          \<and> (g1 = g \<or> updateGuard g = Some g1)
          \<and> (snd (updateGuardList (guards s)) \<longrightarrow> updateGuard g = Some g1)"
proof (cases "snd (updateGuardList (guards s))")
  case True
  have i: "\<And>g g'. updateGuard g = Some g' \<Longrightarrow> g_id g' = g_id g"
    by (rule updateGuard_step(1))
  from find_rel[where k = gid and g = g, OF updateGuardList_rel_ok[OF True] i] g
  obtain g1 where "find (\<lambda>g. g_id g = gid) (fst (updateGuardList (guards s))) = Some g1"
    "updateGuard g = Some g1"
    unfolding getGuard_def by blast
  then show ?thesis
    unfolding getGuard_def updateGuards_guards by blast
next
  case False
  have i: "\<And>g g'. g' = g \<or> updateGuard g = Some g' \<Longrightarrow> g_id g' = g_id g"
    using updateGuard_step(1) by blast
  from find_rel[where k = gid and g = g, OF updateGuardList_rel i] g
  obtain g1 where "find (\<lambda>g. g_id g = gid) (fst (updateGuardList (guards s))) = Some g1"
    "g1 = g \<or> updateGuard g = Some g1"
    unfolding getGuard_def by blast
  with False show ?thesis
    unfolding getGuard_def updateGuards_guards by blast
qed

section \<open>Guards: distractions\<close>

lemma distractGuard_fields [simp]:
  "g_id (distractGuard d g) = g_id g"
  "g_position (distractGuard d g) = g_position g"
  by (simp_all add: distractGuard_def)

lemma hearAll_simps [simp]:
  "hearAll [] g = g"
  "hearAll (d # ds) g = hearAll ds (distractGuard d g)"
  by (simp_all add: hearAll_def)

lemma hearAll_fields [simp]:
  "g_id (hearAll ds g) = g_id g"
  "g_position (hearAll ds g) = g_position g"
  by (induction ds arbitrary: g) simp_all

lemma distract_fold_map:
  "foldl (\<lambda>gs d. map (distractGuard d) gs) gs ds = map (hearAll ds) gs"
proof (induction ds arbitrary: gs)
  case Nil
  have "map (hearAll []) gs = gs" by (rule map_idI) simp
  then show ?case by simp
next
  case (Cons d ds)
  have "map (hearAll (d # ds)) gs = map (hearAll ds) (map (distractGuard d) gs)"
    by simp
  with Cons.IH[of "map (distractGuard d) gs"] show ?case by simp
qed

lemma hearAll_cases:
  "hearAll ds g = g \<or>
   (g_alertState (hearAll ds g) = Suspicious \<and> g_alertState g \<noteq> Alert \<and>
    (\<exists>d\<in>set ds. planarDist (ds_position d) (g_position g) < hearingRange (ds_type d)))"
proof (induction ds arbitrary: g)
  case Nil
  show ?case by simp
next
  case (Cons d ds)
  let ?g1 = "distractGuard d g"
  note ih = Cons.IH[of ?g1]
  show ?case
  proof (cases "hearsDistraction d g")
    case False
    then have e: "?g1 = g" by (simp add: distractGuard_def)
    from ih show ?thesis unfolding hearAll_simps e by auto
  next
    case True
    then have h: "g_alertState g \<noteq> Alert"
      "planarDist (ds_position d) (g_position g) < hearingRange (ds_type d)"
      by (simp_all add: hearsDistraction_def)
    from True have s1: "g_alertState ?g1 = Suspicious" by (simp add: distractGuard_def)
    from ih have "g_alertState (hearAll ds ?g1) = Suspicious"
      using s1 by auto
    with h show ?thesis unfolding hearAll_simps by auto
  qed
qed

lemma hearAll_alert:
  "g_alertState (hearAll ds g) = Alert \<longleftrightarrow> g_alertState g = Alert"
  using hearAll_cases[of ds g] by auto

lemma updateDistractions_guards:
  "guards (updateDistractions now s)
   = map (hearAll (filter (liveDistraction now) (distractions s))) (guards s)"
  by (simp add: updateDistractions_def Let_def distract_fold_map)

lemma updateDistractions_guard:
  "getGuard (updateDistractions now s) gid
   = map_option (hearAll (filter (liveDistraction now) (distractions s))) (getGuard s gid)"
  unfolding getGuard_def updateDistractions_guards
  by (rule find_map_id) simp

lemma updateDistractions_ids:
  "map g_id (guards (updateDistractions now s)) = map g_id (guards s)"
  by (simp add: updateDistractions_guards comp_def)

section \<open>Guards: detection\<close>

lemma sameSight_refl [simp]: "sameSight g g"
  by (simp add: sameSight_def)

lemma sameSight_trans: "sameSight a b \<Longrightarrow> sameSight b c \<Longrightarrow> sameSight a c"
  by (simp add: sameSight_def)

lemma canGuardSeeEntity_sameSight:
  "sameSight g g' \<Longrightarrow> canGuardSeeEntity s g' e = canGuardSeeEntity s g e"
  by (simp add: sameSight_def canGuardSeeEntity_def)

lemma seeEntity_sight: "sameSight g (seeEntity s g e)"
  by (simp add: sameSight_def seeEntity_def)

lemma see_fold:
  "sameSight g (foldl (seeEntity s) g es) \<and>
   (foldl (seeEntity s) g es = g \<or>
    (g_alertState (foldl (seeEntity s) g es) = Alert \<and>
     (\<exists>e\<in>set es. canGuardSeeEntity s g e)))"
proof (induction es arbitrary: g)
  case Nil
  show ?case by simp
next
  case (Cons e es)
  let ?g1 = "seeEntity s g e"
  let ?r = "foldl (seeEntity s) ?g1 es"
  have s1: "sameSight g ?g1" by (rule seeEntity_sight)
  from Cons.IH[of ?g1] have s2: "sameSight ?g1 ?r"
    and c: "?r = ?g1 \<or> (g_alertState ?r = Alert \<and> (\<exists>e\<in>set es. canGuardSeeEntity s ?g1 e))"
    by blast+
  have ss: "sameSight g ?r" by (rule sameSight_trans[OF s1 s2])
  have "?r = g \<or> (g_alertState ?r = Alert \<and> (\<exists>x\<in>set (e # es). canGuardSeeEntity s g x))"
  proof (cases "canGuardSeeEntity s g e")
    case True
    then have a: "g_alertState ?g1 = Alert" by (simp add: seeEntity_def)
    from c have "g_alertState ?r = Alert" using a by auto
    with True show ?thesis by auto
  next
    case False
    then have e: "?g1 = g" by (simp add: seeEntity_def)
    from c show ?thesis unfolding e by auto
  qed
  with ss show ?case by simp
qed

lemma respawn_guards [simp]: "guards (respawnPlayersAtCheckpoint r s) = guards s"
  by (simp add: respawnPlayersAtCheckpoint_def)

lemma respawn_getGuard [simp]:
  "getGuard (respawnPlayersAtCheckpoint r s) k = getGuard s k"
  by (simp add: getGuard_def)

lemma catchStep_guard:
  "getGuard (catchStep k s eid) gid = getGuard s gid \<or>
   (k = gid \<and> (\<exists>ga. getGuard s gid = Some ga \<and>
      getGuard (catchStep k s eid) gid
        = Some (ga\<lparr>g_alertState := Returning, g_lastSeenPlayerPos := None\<rparr>)))"
proof (cases "getGuard s k")
  case None
  then show ?thesis by (simp add: catchStep_def)
next
  case (Some guard)
  show ?thesis
  proof (cases "getEntity s eid")
    case None
    with Some show ?thesis by (simp add: catchStep_def)
  next
    case e: (Some entity)
    let ?f = "\<lambda>g. g\<lparr>g_alertState := Returning, g_lastSeenPlayerPos := None\<rparr>"
    have m: "getGuard (modifyGuard k ?f (respawnPlayersAtCheckpoint ByGuard s)) gid
        = (if gid = k then map_option ?f (getGuard s gid) else getGuard s gid)"
      by (subst getGuard_modify) simp_all
    show ?thesis
    proof (cases "planarDist (e_position entity) (g_position guard) < 0.8
                  \<and> g_alertState guard = Alert")
      case False
      have "catchStep k s eid = s"
        unfolding catchStep_def using Some e False by (simp only: option.case if_False)
      then show ?thesis by simp
    next
      case True
      have c: "catchStep k s eid
          = modifyGuard k ?f (respawnPlayersAtCheckpoint ByGuard s)"
        using Some e True by (simp add: catchStep_def)
      show ?thesis
      proof (cases "gid = k")
        case False
        with m show ?thesis unfolding c by simp
      next
        case True
        with m Some show ?thesis unfolding c by simp
      qed
    qed
  qed
qed

lemma catch_fold_other:
  assumes "k \<noteq> gid"
  shows "getGuard (foldl (catchStep k) s ids) gid = getGuard s gid"
proof (induction ids arbitrary: s)
  case Nil
  show ?case by simp
next
  case (Cons a ids)
  from catchStep_guard[of k s a gid] assms
  have "getGuard (catchStep k s a) gid = getGuard s gid" by blast
  with Cons.IH[of "catchStep k s a"] show ?case by simp
qed

lemma catch_fold_guard:
  assumes "getGuard s gid = Some ga"
  shows "\<exists>gb. getGuard (foldl (catchStep gid) s ids) gid = Some gb \<and>
           (g_alertState gb = g_alertState ga \<or> g_alertState gb = Returning)"
  using assms
proof (induction ids arbitrary: s ga)
  case Nil
  then show ?case by simp
next
  case (Cons a ids)
  from catchStep_guard[of gid s a gid] Cons.prems
  obtain g1 where g1: "getGuard (catchStep gid s a) gid = Some g1"
    and a1: "g_alertState g1 = g_alertState ga \<or> g_alertState g1 = Returning"
    by auto
  from Cons.IH[OF g1]
  obtain gb where "getGuard (foldl (catchStep gid) (catchStep gid s a) ids) gid = Some gb"
    "g_alertState gb = g_alertState g1 \<or> g_alertState gb = Returning"
    by blast
  with a1 show ?case by auto
qed

lemma see_fold_id: "g_id (foldl (seeEntity s) g es) = g_id g"
  using see_fold[of g s es] by (simp add: sameSight_def)

lemma guardDetectStep_other:
  assumes "k \<noteq> gid"
  shows "getGuard (guardDetectStep s k) gid = getGuard s gid"
proof (cases "getGuard s k")
  case None
  then show ?thesis by (simp add: guardDetectStep_def)
next
  case (Some guard)
  let ?s1 = "modifyGuard k (\<lambda>g. foldl (seeEntity s) g (entities s)) s"
  have 1: "getGuard ?s1 gid = getGuard s gid"
    using assms by (subst getGuard_modify) (simp_all add: see_fold_id)
  from Some have "guardDetectStep s k = foldl (catchStep k) ?s1 (map e_id (entities ?s1))"
    by (simp add: guardDetectStep_def Let_def)
  with catch_fold_other[OF assms, of ?s1] 1 show ?thesis by simp
qed

lemma guardDetectStep_guard:
  assumes g: "getGuard s gid = Some g2"
  shows "\<exists>g3. getGuard (guardDetectStep s gid) gid = Some g3 \<and>
          (g_alertState g3 = g_alertState g2 \<or> g_alertState g3 = Returning \<or>
           (g_alertState g3 = Alert \<and> (\<exists>e\<in>set (entities s). canGuardSeeEntity s g2 e)))"
proof -
  let ?gs = "foldl (seeEntity s) g2 (entities s)"
  let ?s1 = "modifyGuard gid (\<lambda>g. foldl (seeEntity s) g (entities s)) s"
  have 1: "getGuard ?s1 gid = Some ?gs"
    using g by (subst getGuard_modify) (simp_all add: see_fold_id)
  from g have d: "guardDetectStep s gid = foldl (catchStep gid) ?s1 (map e_id (entities ?s1))"
    by (simp add: guardDetectStep_def Let_def)
  from catch_fold_guard[OF 1, of "map e_id (entities ?s1)"]
  obtain g3 where g3: "getGuard (guardDetectStep s gid) gid = Some g3"
    and a: "g_alertState g3 = g_alertState ?gs \<or> g_alertState g3 = Returning"
    unfolding d by blast
  from see_fold[of g2 s "entities s"]
  have "?gs = g2 \<or> (g_alertState ?gs = Alert \<and> (\<exists>e\<in>set (entities s). canGuardSeeEntity s g2 e))"
    by blast
  with a have "g_alertState g3 = g_alertState g2 \<or> g_alertState g3 = Returning \<or>
           (g_alertState g3 = Alert \<and> (\<exists>e\<in>set (entities s). canGuardSeeEntity s g2 e))"
    by auto
  with g3 show ?thesis by blast
qed

lemma detect_fold_other:
  assumes "gid \<notin> set ks"
  shows "getGuard (foldl guardDetectStep s ks) gid = getGuard s gid"
  using assms
proof (induction ks arbitrary: s)
  case Nil
  show ?case by simp
next
  case (Cons k ks)
  then have "k \<noteq> gid" "gid \<notin> set ks" by auto
  from guardDetectStep_other[OF this(1), of s] Cons.IH[OF this(2), of "guardDetectStep s k"]
  show ?case by simp
qed

lemma detection_guard:
  assumes "distinct ks" "gid \<in> set ks" "getGuard s gid = Some g2"
  shows "\<exists>t g3. roomWhenReached s ks gid = Some t \<and> getGuard t gid = Some g2 \<and>
           getGuard (foldl guardDetectStep s ks) gid = Some g3 \<and>
           (g_alertState g3 = g_alertState g2 \<or> g_alertState g3 = Returning \<or>
            (g_alertState g3 = Alert \<and> (\<exists>e\<in>set (entities t). canGuardSeeEntity t g2 e)))"
  using assms
proof (induction ks arbitrary: s)
  case Nil
  then show ?case by simp
next
  case (Cons k ks)
  show ?case
  proof (cases "k = gid")
    case True
    with Cons.prems(1) have n: "gid \<notin> set ks" by simp
    from guardDetectStep_guard[OF Cons.prems(3)]
    obtain g3 where g3: "getGuard (guardDetectStep s gid) gid = Some g3"
      and a: "g_alertState g3 = g_alertState g2 \<or> g_alertState g3 = Returning \<or>
           (g_alertState g3 = Alert \<and> (\<exists>e\<in>set (entities s). canGuardSeeEntity s g2 e))"
      by blast
    from detect_fold_other[OF n, of "guardDetectStep s gid"] g3
    have "getGuard (foldl guardDetectStep s (k # ks)) gid = Some g3"
      using True by simp
    moreover have "roomWhenReached s (k # ks) gid = Some s" using True by simp
    ultimately show ?thesis using Cons.prems(3) a by blast
  next
    case False
    with Cons.prems have d: "distinct ks" and m: "gid \<in> set ks" by auto
    from guardDetectStep_other[OF False, of s] Cons.prems(3)
    have g: "getGuard (guardDetectStep s k) gid = Some g2" by simp
    from Cons.IH[OF d m g] False show ?thesis by simp
  qed
qed

section \<open>Guard alert transitions (C5)\<close>

lemma updateGuards_distractions [simp]:
  "distractions (stateOf (updateGuards s)) = distractions s"
  by (simp add: updateGuards_def stateOf_def)

lemma expirePings_guards [simp]: "guards (expirePings now s) = guards s"
  by (simp add: expirePings_def)

lemma tickBeforeGuards_guards:
  "guards (tickBeforeGuards s) = guards s" "distractions (tickBeforeGuards s) = distractions s"
  using stable_fields(6,7)[OF tickBeforeGuards_stable[of s]] by simp_all

lemma checkHazardCollisions_guards [simp]:
  "guards (checkHazardCollisions K s) = guards s"
  using stable_fields(6)[OF checkHazardCollisions_stable[of K s]] by simp

lemma checkPuzzleCompletion_guards [simp]:
  "guards (checkPuzzleCompletion s) = guards s"
  using stable_fields(6)[OF checkPuzzleCompletion_stable[of s]] by simp

lemma getGuard_cong: "guards t = guards s \<Longrightarrow> getGuard t k = getGuard s k"
  by (simp add: getGuard_def)

text \<open>The guard a whole tick leaves, traced through the phases: the AI update, the
  distractions, and the detection pass that starts in \<open>beforeDetection\<close>.\<close>

lemma tick_guard_returned:
  assumes d: "distinct (map g_id (guards s))"
    and g: "getGuard s gid = Some g"
    and np: "\<not> paused s"
    and ok: "snd (updateGuardList (guards (tickBeforeGuards s)))"
  shows "\<exists>g1 t g3. updateGuard g = Some g1
      \<and> roomWhenReached (beforeDetection K now s)
            (map g_id (guards (beforeDetection K now s))) gid = Some t
      \<and> getGuard t gid = Some (hearAll (filter (liveDistraction now) (distractions s)) g1)
      \<and> getGuard (stateOf (tick K now s)) gid = Some g3
      \<and> (g_alertState g3
            = g_alertState (hearAll (filter (liveDistraction now) (distractions s)) g1)
         \<or> g_alertState g3 = Returning
         \<or> (g_alertState g3 = Alert \<and>
             (\<exists>e\<in>set (entities t).
                canGuardSeeEntity t
                  (hearAll (filter (liveDistraction now) (distractions s)) g1) e)))"
proof -
  let ?sb = "tickBeforeGuards s"
  let ?s6 = "stateOf (updateGuards ?sb)"
  let ?ds = "filter (liveDistraction now) (distractions s)"
  let ?sd = "updateDistractions now ?s6"
  let ?sh = "beforeDetection K now s"
  have g0: "getGuard ?sb gid = Some g"
    using g getGuard_cong[OF tickBeforeGuards_guards(1)] by simp
  from updateGuards_guard[OF g0] ok
  obtain g1 where g1: "getGuard ?s6 gid = Some g1" and u: "updateGuard g = Some g1"
    by blast
  have ds: "filter (liveDistraction now) (distractions ?s6) = ?ds"
    by (simp add: tickBeforeGuards_guards(2))
  have g2: "getGuard ?sd gid = Some (hearAll ?ds g1)"
    unfolding updateDistractions_guard ds g1 by simp
  have sh: "?sh = checkHazardCollisions K ?sd"
    by (simp add: beforeDetection_def)
  have g2h: "getGuard ?sh gid = Some (hearAll ?ds g1)"
    unfolding sh using g2 getGuard_cong[OF checkHazardCollisions_guards] by simp
  have ids: "map g_id (guards ?sh) = map g_id (guards s)"
    unfolding sh
    by (simp add: updateDistractions_ids updateGuards_ids tickBeforeGuards_guards(1))
  have dist: "distinct (map g_id (guards ?sh))"
    unfolding ids by (rule d)
  have mem: "gid \<in> set (map g_id (guards ?sh))"
    by (rule getGuard_mem[OF g2h])
  from detection_guard[OF dist mem g2h]
  obtain t g3 where t: "roomWhenReached ?sh (map g_id (guards ?sh)) gid = Some t"
    and gt: "getGuard t gid = Some (hearAll ?ds g1)"
    and g3: "getGuard (foldl guardDetectStep ?sh (map g_id (guards ?sh))) gid = Some g3"
    and a: "g_alertState g3 = g_alertState (hearAll ?ds g1) \<or> g_alertState g3 = Returning \<or>
            (g_alertState g3 = Alert \<and>
             (\<exists>e\<in>set (entities t). canGuardSeeEntity t (hearAll ?ds g1) e))"
    by blast
  have fin: "stateOf (tick K now s)
      = expirePings now (checkPuzzleCompletion (checkGuardDetection ?sh))"
    using np ok by (simp add: stateOf_tick tickAfterGuards_def beforeDetection_def)
  have "guards (stateOf (tick K now s)) = guards (checkGuardDetection ?sh)"
    unfolding fin by simp
  from getGuard_cong[OF this, of gid] g3
  have "getGuard (stateOf (tick K now s)) gid = Some g3"
    by (simp add: checkGuardDetection_def)
  with u t gt a show ?thesis by blast
qed

lemma tick_guard_threw:
  assumes g: "getGuard s gid = Some g"
    and np: "\<not> paused s"
    and ok: "\<not> snd (updateGuardList (guards (tickBeforeGuards s)))"
  shows "\<exists>g1. getGuard (stateOf (tick K now s)) gid = Some g1
             \<and> (g1 = g \<or> updateGuard g = Some g1)"
proof -
  let ?sb = "tickBeforeGuards s"
  have g0: "getGuard ?sb gid = Some g"
    using g getGuard_cong[OF tickBeforeGuards_guards(1)] by simp
  from updateGuards_guard[OF g0]
  obtain g1 where "getGuard (stateOf (updateGuards ?sb)) gid = Some g1"
    "g1 = g \<or> updateGuard g = Some g1"
    by blast
  moreover have "stateOf (tick K now s) = stateOf (updateGuards ?sb)"
    using np ok by (simp add: stateOf_tick)
  ultimately show ?thesis by simp
qed

text \<open>
  Claim C5. Over one call of \<^verbatim>\<open>tick()\<close>, for a guard stored under \<open>gid\<close> (the keys of the
  guard map are distinct): if the guard is alert after the tick and was not before, then
  in that tick the detection loop, when it reached this guard, found an entity for which
  \<^verbatim>\<open>canGuardSeeEntity\<close> was true; and if the guard is suspicious after the tick and was
  not before, then either it was alert with no last-seen position, or its AI update left
  it in a state other than alert and a distraction that is still live lies within its
  hearing range.
\<close>

theorem alert_only_on_sight_suspicious_only_on_cause:
  assumes d: "distinct (map g_id (guards s))"
    and g: "getGuard s gid = Some g"
    and g': "getGuard (stateOf (tick K now s)) gid = Some g'"
  shows "(g_alertState g' = Alert \<and> g_alertState g \<noteq> Alert \<longrightarrow>
          (\<exists>t gt e. roomWhenReached (beforeDetection K now s)
                       (map g_id (guards (beforeDetection K now s))) gid = Some t
             \<and> getGuard t gid = Some gt \<and> e \<in> set (entities t)
             \<and> canGuardSeeEntity t gt e))
       \<and> (g_alertState g' = Suspicious \<and> g_alertState g \<noteq> Suspicious \<longrightarrow>
          (g_alertState g = Alert \<and> g_lastSeenPlayerPos g = None) \<or>
          (\<exists>g1 d. updateGuard g = Some g1 \<and> g_alertState g1 \<noteq> Alert
             \<and> d \<in> set (distractions s) \<and> liveDistraction now d
             \<and> planarDist (ds_position d) (g_position g1) < hearingRange (ds_type d)))"
proof (cases "paused s")
  case True
  then have "stateOf (tick K now s) = s" by (simp add: stateOf_tick)
  with g g' have "g' = g" by simp
  then show ?thesis by simp
next
  case np: False
  show ?thesis
  proof (cases "snd (updateGuardList (guards (tickBeforeGuards s)))")
    case False
    from tick_guard_threw[OF g np False, of K now] g'
    have r: "g' = g \<or> updateGuard g = Some g'" by simp
    show ?thesis
    proof (cases "g' = g")
      case True
      then show ?thesis by simp
    next
      case False
      with r have u: "updateGuard g = Some g'" by simp
      from updateGuard_step(2,3)[OF u] show ?thesis by blast
    qed
  next
    case True
    let ?ds = "filter (liveDistraction now) (distractions s)"
    from tick_guard_returned[OF d g np True, of K now] g'
    obtain g1 t where u: "updateGuard g = Some g1"
      and t: "roomWhenReached (beforeDetection K now s)
            (map g_id (guards (beforeDetection K now s))) gid = Some t"
      and gt: "getGuard t gid = Some (hearAll ?ds g1)"
      and a: "g_alertState g' = g_alertState (hearAll ?ds g1)
         \<or> g_alertState g' = Returning
         \<or> (g_alertState g' = Alert \<and>
             (\<exists>e\<in>set (entities t). canGuardSeeEntity t (hearAll ?ds g1) e))"
      by auto
    have A: "\<exists>t gt e. roomWhenReached (beforeDetection K now s)
                       (map g_id (guards (beforeDetection K now s))) gid = Some t
             \<and> getGuard t gid = Some gt \<and> e \<in> set (entities t)
             \<and> canGuardSeeEntity t gt e"
      if al: "g_alertState g' = Alert" and nal: "g_alertState g \<noteq> Alert"
    proof -
      have "g_alertState (hearAll ?ds g1) \<noteq> Alert"
      proof
        assume "g_alertState (hearAll ?ds g1) = Alert"
        then have "g_alertState g1 = Alert" by (simp add: hearAll_alert)
        from updateGuard_step(2)[OF u this] nal show False by simp
      qed
      with a al have "\<exists>e\<in>set (entities t). canGuardSeeEntity t (hearAll ?ds g1) e"
        by auto
      with t gt show ?thesis by blast
    qed
    have S: "(g_alertState g = Alert \<and> g_lastSeenPlayerPos g = None) \<or>
          (\<exists>g1 d. updateGuard g = Some g1 \<and> g_alertState g1 \<noteq> Alert
             \<and> d \<in> set (distractions s) \<and> liveDistraction now d
             \<and> planarDist (ds_position d) (g_position g1) < hearingRange (ds_type d))"
      if su: "g_alertState g' = Suspicious" and nsu: "g_alertState g \<noteq> Suspicious"
    proof -
      from a su have h: "g_alertState (hearAll ?ds g1) = Suspicious" by auto
      show ?thesis
      proof (cases "hearAll ?ds g1 = g1")
        case True
        with h have "g_alertState g1 = Suspicious" by simp
        from updateGuard_step(3)[OF u this nsu] show ?thesis by blast
      next
        case False
        with hearAll_cases[of ?ds g1]
        obtain d where "g_alertState g1 \<noteq> Alert" "d \<in> set ?ds"
          "planarDist (ds_position d) (g_position g1) < hearingRange (ds_type d)"
          by blast
        with u show ?thesis by auto
      qed
    qed
    from A S show ?thesis by blast
  qed
qed

lemma see_demo:
  assumes "levelData s = Some openLevel" "interactables s = []"
  shows "canGuardSeeEntity s demoGuard (mkEntity Dog (pos 5 4))"
proof -
  have n: "normalizeUp (normalizeDown 0) = 0"
    by (simp add: normalizeDown.simps[of 0] normalizeUp.simps[of 0])
  have u: "[Suc 0..<2] = [Suc 0]"
    by (simp add: numeral_2_eq_2)
  show ?thesis
    using assms
    by (simp add: canGuardSeeEntity_def demoGuard_def mkEntity_def pos_def bearing_def
        atan2_def n u isPositionWalkable_def openLevel_def cornerBlocked_def)
qed

lemma updateGuard_demo: "updateGuard demoGuard = Some demoGuard"
  by (simp add: updateGuard_def updateGuardPatrol_def demoGuard_def)

lemma hear_demo:
  "hearAll [demoWhistle] demoGuard
   = demoGuard\<lparr>g_alertState := Suspicious, g_alertTimer := 5000,
                 g_lastSeenPlayerPos := Some (pos 5 4)\<rparr>"
  by (simp add: hearAll_def distractGuard_def hearsDistraction_def demoWhistle_def
      demoGuard_def hearingRange_def planarDist_def pos_def)


lemma demo_before:
  assumes "s = watchRoom \<or> s = noiseRoom"
  shows "tickBeforeGuards s = s\<lparr>tick_n := Suc 0\<rparr>"
    and "updateGuards (s\<lparr>tick_n := Suc 0\<rparr>) = Returned (s\<lparr>tick_n := Suc 0\<rparr>)"
proof -
  have i: "interactables s = []" and t: "tick_n s = 0" and g: "guards s = [demoGuard]"
    and e: "set (entities s) \<subseteq> {mkEntity Dog (pos 5 4)}"
    using assms by (auto simp add: watchRoom_def noiseRoom_def emptyRoom_def)
  show "tickBeforeGuards s = s\<lparr>tick_n := Suc 0\<rparr>"
    using i t by (simp add: tick_eval isCrate_def isPressurePlate_def)
  show "updateGuards (s\<lparr>tick_n := Suc 0\<rparr>) = Returned (s\<lparr>tick_n := Suc 0\<rparr>)"
    using g by (simp add: updateGuards_def updateGuard_demo)
qed

lemma no_hazards: "interactables t = [] \<Longrightarrow> checkHazardCollisions K t = t"
proof -
  have "foldl (hazardEntityStep K) t ks = t" if "interactables t = []" for t ks
    using that by (induction ks) (simp_all add: hazardEntityStep_def)
  then show "interactables t = [] \<Longrightarrow> checkHazardCollisions K t = t"
    by (simp add: checkHazardCollisions_def)
qed

lemma demo_beforeDetection:
  "beforeDetection K 100 watchRoom = watchRoom\<lparr>tick_n := Suc 0\<rparr>"
  "beforeDetection K 100 noiseRoom
   = noiseRoom\<lparr>tick_n := Suc 0,
       guards := [demoGuard\<lparr>g_alertState := Suspicious, g_alertTimer := 5000,
                            g_lastSeenPlayerPos := Some (pos 5 4)\<rparr>]\<rparr>"
proof -
  have w1: "tickBeforeGuards watchRoom = watchRoom\<lparr>tick_n := Suc 0\<rparr>"
    by (rule demo_before(1)) simp
  have w2: "stateOf (updateGuards (watchRoom\<lparr>tick_n := Suc 0\<rparr>)) = watchRoom\<lparr>tick_n := Suc 0\<rparr>"
    by (simp add: demo_before(2)[of watchRoom] stateOf_def)
  have w3: "updateDistractions 100 (watchRoom\<lparr>tick_n := Suc 0\<rparr>) = watchRoom\<lparr>tick_n := Suc 0\<rparr>"
    by (simp add: updateDistractions_def watchRoom_def emptyRoom_def)
  have w4: "checkHazardCollisions K (watchRoom\<lparr>tick_n := Suc 0\<rparr>) = watchRoom\<lparr>tick_n := Suc 0\<rparr>"
    by (rule no_hazards) (simp add: watchRoom_def emptyRoom_def)
  show "beforeDetection K 100 watchRoom = watchRoom\<lparr>tick_n := Suc 0\<rparr>"
    unfolding beforeDetection_def w1 w2 w3 w4 by (rule refl)
  let ?x = "noiseRoom\<lparr>tick_n := Suc 0,
       guards := [demoGuard\<lparr>g_alertState := Suspicious, g_alertTimer := 5000,
                            g_lastSeenPlayerPos := Some (pos 5 4)\<rparr>]\<rparr>"
  have n1: "tickBeforeGuards noiseRoom = noiseRoom\<lparr>tick_n := Suc 0\<rparr>"
    by (rule demo_before(1)) simp
  have n2: "stateOf (updateGuards (noiseRoom\<lparr>tick_n := Suc 0\<rparr>)) = noiseRoom\<lparr>tick_n := Suc 0\<rparr>"
    by (simp add: demo_before(2)[of noiseRoom] stateOf_def)
  have n3: "updateDistractions 100 (noiseRoom\<lparr>tick_n := Suc 0\<rparr>) = ?x"
    by (simp add: updateDistractions_def noiseRoom_def emptyRoom_def liveDistraction_def
        distractGuard_def hearsDistraction_def demoWhistle_def
        demoGuard_def hearingRange_def planarDist_def pos_def)
  have n4: "checkHazardCollisions K ?x = ?x"
    by (rule no_hazards) (simp add: noiseRoom_def emptyRoom_def)
  show "beforeDetection K 100 noiseRoom = ?x"
    unfolding beforeDetection_def n1 n2 n3 n4 by (rule refl)
qed

text \<open>The guard of the two rooms after one tick.\<close>

lemma demo_tick:
  "getGuard (stateOf (tick demoConstants 100 watchRoom)) ''guard_1''
   = Some (demoGuard\<lparr>g_alertState := Alert, g_lastSeenPlayerPos := Some (pos 5 4),
                       g_alertTimer := 5000\<rparr>)"
  "getGuard (stateOf (tick demoConstants 100 noiseRoom)) ''guard_1''
   = Some (demoGuard\<lparr>g_alertState := Suspicious, g_alertTimer := 5000,
                       g_lastSeenPlayerPos := Some (pos 5 4)\<rparr>)"
proof -
  have f: "stateOf (tick demoConstants 100 s)
      = expirePings 100 (checkPuzzleCompletion
          (checkGuardDetection (beforeDetection demoConstants 100 s)))"
    if "s = watchRoom \<or> s = noiseRoom" for s
  proof -
    have "\<not> paused s" using that by (auto simp add: watchRoom_def noiseRoom_def emptyRoom_def)
    moreover have "snd (updateGuardList (guards (tickBeforeGuards s)))"
      using that
      by (auto simp add: tickBeforeGuards_guards watchRoom_def noiseRoom_def emptyRoom_def
          updateGuard_demo)
    ultimately show ?thesis
      by (simp add: stateOf_tick tickAfterGuards_def beforeDetection_def)
  qed
  have g: "getGuard (stateOf (tick demoConstants 100 s)) k
      = getGuard (checkGuardDetection (beforeDetection demoConstants 100 s)) k"
    if "s = watchRoom \<or> s = noiseRoom" for s k
    unfolding f[OF that] by (rule getGuard_cong) simp
  have see: "canGuardSeeEntity (watchRoom\<lparr>tick_n := Suc 0\<rparr>) demoGuard (mkEntity Dog (pos 5 4))"
    by (rule see_demo) (simp_all add: watchRoom_def emptyRoom_def)
  have far: "\<not> planarDist (pos 5 4) (pos 4 4) < 0.8"
    by (simp add: planarDist_def pos_def)
  show "getGuard (stateOf (tick demoConstants 100 watchRoom)) ''guard_1''
   = Some (demoGuard\<lparr>g_alertState := Alert, g_lastSeenPlayerPos := Some (pos 5 4),
                       g_alertTimer := 5000\<rparr>)"
    unfolding g[of watchRoom, simplified] demo_beforeDetection
    using see far
    by (simp add: checkGuardDetection_def guardDetectStep_def getGuard_def modifyGuard_def
        seeEntity_def catchStep_def getEntity_def watchRoom_def emptyRoom_def
        demoGuard_def mkEntity_def entityIdOf_def)
  show "getGuard (stateOf (tick demoConstants 100 noiseRoom)) ''guard_1''
   = Some (demoGuard\<lparr>g_alertState := Suspicious, g_alertTimer := 5000,
                       g_lastSeenPlayerPos := Some (pos 5 4)\<rparr>)"
    unfolding g[of noiseRoom, simplified] demo_beforeDetection
    by (simp add: checkGuardDetection_def guardDetectStep_def getGuard_def modifyGuard_def
        noiseRoom_def emptyRoom_def demoGuard_def)
qed

text \<open>Claim C5 on the two rooms: after one tick the guard of \<open>watchRoom\<close> is alert, and the
  detection loop found an entity it can see; the guard of \<open>noiseRoom\<close> is suspicious, and
  a live distraction lies within its hearing range.\<close>

theorem alert_only_on_sight_suspicious_only_on_cause_witness:
  "g_alertState demoGuard = GIdle
   \<and> getGuard (stateOf (tick demoConstants 100 watchRoom)) ''guard_1''
       = Some (demoGuard\<lparr>g_alertState := Alert, g_lastSeenPlayerPos := Some (pos 5 4),
                           g_alertTimer := 5000\<rparr>)
   \<and> (\<exists>t gt e. roomWhenReached (beforeDetection demoConstants 100 watchRoom)
                    (map g_id (guards (beforeDetection demoConstants 100 watchRoom)))
                    ''guard_1'' = Some t
          \<and> getGuard t ''guard_1'' = Some gt \<and> e \<in> set (entities t)
          \<and> canGuardSeeEntity t gt e)
   \<and> getGuard (stateOf (tick demoConstants 100 noiseRoom)) ''guard_1''
       = Some (demoGuard\<lparr>g_alertState := Suspicious, g_alertTimer := 5000,
                           g_lastSeenPlayerPos := Some (pos 5 4)\<rparr>)
   \<and> (\<exists>g1 d. updateGuard demoGuard = Some g1 \<and> g_alertState g1 \<noteq> Alert
          \<and> d \<in> set (distractions noiseRoom) \<and> liveDistraction 100 d
          \<and> planarDist (ds_position d) (g_position g1) < hearingRange (ds_type d))"
proof -
  have i: "g_alertState demoGuard = GIdle"
    by (simp add: demoGuard_def)
  have dw: "distinct (map g_id (guards watchRoom))"
    and gw: "getGuard watchRoom ''guard_1'' = Some demoGuard"
    by (simp_all add: watchRoom_def emptyRoom_def getGuard_def demoGuard_def)
  have dn: "distinct (map g_id (guards noiseRoom))"
    and gn: "getGuard noiseRoom ''guard_1'' = Some demoGuard"
    by (simp_all add: noiseRoom_def emptyRoom_def getGuard_def demoGuard_def)
  have a: "g_alertState (demoGuard\<lparr>g_alertState := Alert,
              g_lastSeenPlayerPos := Some (pos 5 4), g_alertTimer := 5000\<rparr>) = Alert"
    and s: "g_alertState (demoGuard\<lparr>g_alertState := Suspicious, g_alertTimer := 5000,
              g_lastSeenPlayerPos := Some (pos 5 4)\<rparr>) = Suspicious"
    by simp_all
  from alert_only_on_sight_suspicious_only_on_cause[OF dw gw demo_tick(1)] a i
  have 1: "\<exists>t gt e. roomWhenReached (beforeDetection demoConstants 100 watchRoom)
                    (map g_id (guards (beforeDetection demoConstants 100 watchRoom)))
                    ''guard_1'' = Some t
          \<and> getGuard t ''guard_1'' = Some gt \<and> e \<in> set (entities t)
          \<and> canGuardSeeEntity t gt e"
    by simp
  from alert_only_on_sight_suspicious_only_on_cause[OF dn gn demo_tick(2)] s i
  have 2: "\<exists>g1 d. updateGuard demoGuard = Some g1 \<and> g_alertState g1 \<noteq> Alert
          \<and> d \<in> set (distractions noiseRoom) \<and> liveDistraction 100 d
          \<and> planarDist (ds_position d) (g_position g1) < hearingRange (ds_type d)"
    by simp
  from i demo_tick 1 2 show ?thesis by blast
qed

end
